theory Spec2Isabelle
  imports Main
begin

section \<open>Text\<close>

text \<open>
  Text is held as its UTF-8 bytes, one \<^typ>\<open>char\<close> each, the form in which the response
  body arrives. The operations of the source that the model uses (splitting at a line
  feed, comparing with and cutting off an ASCII prefix, searching for backticks, runs of
  word characters and of white space, concatenation) cut a well-formed text at the same
  places whether they count bytes or UTF-16 code units, and the indices the source
  compares (\<^verbatim>\<open>lastIndex\<close>, \<^verbatim>\<open>match.index\<close>, \<^verbatim>\<open>text.length\<close>) keep their order.
\<close>

definition white_space :: "string list" where
  \<comment> \<open>the characters that \<^verbatim>\<open>trim\<close> strips and that \<^verbatim>\<open>\s\<close> matches, each as its bytes: TAB, LF,
      VT, FF, CR, SPACE, U+00A0, U+1680, U+2000 to U+200A, U+2028, U+2029, U+202F, U+205F,
      U+3000, U+FEFF\<close>
  "white_space =
     [[CHR 0x09], [CHR 0x0A], [CHR 0x0B], [CHR 0x0C], [CHR 0x0D], [CHR 0x20],
      [CHR 0xC2, CHR 0xA0], [CHR 0xE1, CHR 0x9A, CHR 0x80]]
     @ map (\<lambda>c. [CHR 0xE2, CHR 0x80, c])
         [CHR 0x80, CHR 0x81, CHR 0x82, CHR 0x83, CHR 0x84, CHR 0x85, CHR 0x86, CHR 0x87,
          CHR 0x88, CHR 0x89, CHR 0x8A, CHR 0xA8, CHR 0xA9, CHR 0xAF]
     @ [[CHR 0xE2, CHR 0x81, CHR 0x9F], [CHR 0xE3, CHR 0x80, CHR 0x80],
        [CHR 0xEF, CHR 0xBB, CHR 0xBF]]"

definition starts_with :: "string \<Rightarrow> string \<Rightarrow> bool" where
  \<comment> \<open>\<^verbatim>\<open>s.startsWith(p)\<close>\<close>
  "starts_with s p = (take (length p) s = p)"

definition space_len :: "string list \<Rightarrow> string \<Rightarrow> nat" where
  \<comment> \<open>how many bytes the character of the table at the head of the text has; 0 when the
      text does not start with one\<close>
  "space_len tbl s = (case find (starts_with s) tbl of None \<Rightarrow> 0 | Some w \<Rightarrow> length w)"

fun space_run :: "string list \<Rightarrow> nat \<Rightarrow> string \<Rightarrow> nat" where
  \<comment> \<open>the length in bytes of the longest run of characters of the table at the head of the
      text; \<open>k\<close> counts the bytes of the current character still to pass\<close>
  "space_run tbl k [] = 0"
| "space_run tbl k (c # cs) =
     (if 0 < k then Suc (space_run tbl (k - 1) cs)
      else (let n = space_len tbl (c # cs)
            in if n = 0 then 0 else Suc (space_run tbl (n - 1) cs)))"

definition spaces :: "string \<Rightarrow> nat" where
  "spaces s = space_run white_space 0 s"

definition trimStart :: "string \<Rightarrow> string" where
  "trimStart s = drop (spaces s) s"

definition trimEnd :: "string \<Rightarrow> string" where
  \<comment> \<open>the run of white space at the end, read backwards\<close>
  "trimEnd s = rev (drop (space_run (map rev white_space) 0 (rev s)) (rev s))"

definition trim :: "string \<Rightarrow> string" where
  "trim s = trimEnd (trimStart s)"

definition is_word :: "char \<Rightarrow> bool" where
  \<comment> \<open>the regular expressions' \<^verbatim>\<open>\w\<close>: a letter, a digit or the underscore\<close>
  "is_word c =
     (let n = (of_char c :: nat)
      in (48 \<le> n \<and> n \<le> 57) \<or> (65 \<le> n \<and> n \<le> 90) \<or> n = 95 \<or> (97 \<le> n \<and> n \<le> 122))"

definition slice :: "string \<Rightarrow> nat \<Rightarrow> nat \<Rightarrow> string" where
  \<comment> \<open>\<^verbatim>\<open>s.slice(b, e)\<close> for indices that are not negative; empty when \<open>e \<le> b\<close>\<close>
  "slice s b e = take (e - b) (drop b s)"

section \<open>Regular expression matches\<close>

text \<open>
  A match is the array the engine returns (\<open>m_array ! 0\<close> the matched text, then one
  entry per capture group, so that \<open>length (m_array m)\<close> is the source's
  \<^verbatim>\<open>match.length\<close>) together with \<^verbatim>\<open>match.index\<close>.
\<close>

record rmatch =
  m_index :: nat
  m_array :: "string list"

type_synonym matcher = "string \<Rightarrow> string list option"

text \<open>
  A matcher tries one expression at the start of the text it is given. \<open>scan\<close> is the
  global iteration of \<^verbatim>\<open>matchAll\<close> and of the \<^verbatim>\<open>exec\<close> loop: the leftmost match from
  the current position, then on from the end of that match. \<open>skip\<close> counts the bytes
  of the last match that are still to be passed over.
\<close>

fun scan :: "matcher \<Rightarrow> nat \<Rightarrow> nat \<Rightarrow> string \<Rightarrow> rmatch list" where
  "scan m i skip [] = []"
| "scan m i skip (c # cs) =
     (if 0 < skip then scan m (Suc i) (skip - 1) cs
      else (case m (c # cs) of
              None \<Rightarrow> scan m (Suc i) 0 cs
            | Some arr \<Rightarrow>
                \<lparr>m_index = i, m_array = arr\<rparr> # scan m (Suc i) (length (hd arr) - 1) cs))"

definition matchAll :: "matcher \<Rightarrow> string \<Rightarrow> rmatch list" where
  "matchAll m text = scan m 0 0 text"

definition fence :: string where
  \<open>fence = ''```''\<close>

fun find_fence :: "string \<Rightarrow> nat option" where
  \<comment> \<open>where the first fence at or after the start of the text begins\<close>
  "find_fence [] = None"
| "find_fence (c # cs) =
     (if take 3 (c # cs) = fence then Some 0 else map_option Suc (find_fence cs))"

definition upto_last_newline :: "string \<Rightarrow> string" where
  \<comment> \<open>the longest prefix that ends in a line feed\<close>
  "upto_last_newline ws = rev (dropWhile (\<lambda>c. c \<noteq> CHR 0x0A) (rev ws))"

definition close_fence :: "string \<Rightarrow> nat \<Rightarrow> string list \<Rightarrow> string list option" where
  \<comment> \<open>the tail \<^verbatim>\<open>([\s\S]*?)```\<close> of the three expressions, from offset \<open>off\<close> of \<open>s\<close>: the
      lazy body ends at the first fence; \<open>gs\<close> are the groups captured before it\<close>
  "close_fence s off gs =
     (case find_fence (drop off s) of
        None \<Rightarrow> None
      | Some q \<Rightarrow> Some (take (off + q + 3) s # gs @ [take q (drop off s)]))"

definition pattern_lang :: matcher where
  \<comment> \<open>\<^verbatim>\<open>/```(\w+)\s*\n([\s\S]*?)```/g\<close>. The greedy \<^verbatim>\<open>\w+\<close> takes the whole run of word
      characters (giving one back leaves a word character where \<^verbatim>\<open>\s*\n\<close> must start); the
      greedy \<^verbatim>\<open>\s*\<close> followed by \<^verbatim>\<open>\n\<close> ends at the last line feed of the run of white space
      (no fence can start inside that run, so an earlier line feed finds no other body).\<close>
  "pattern_lang s =
     (if take 3 s \<noteq> fence then None
      else let w = takeWhile is_word (drop 3 s);
               ws = take (spaces (drop (3 + length w) s)) (drop (3 + length w) s)
           in if w \<noteq> [] \<and> CHR 0x0A \<in> set ws
              then close_fence s (3 + length w + length (upto_last_newline ws)) [w]
              else None)"

definition pattern_newline :: matcher where
  \<comment> \<open>\<^verbatim>\<open>/```\s*\n([\s\S]*?)```/g\<close>\<close>
  "pattern_newline s =
     (if take 3 s \<noteq> fence then None
      else let ws = take (spaces (drop 3 s)) (drop 3 s)
           in if CHR 0x0A \<in> set ws
              then close_fence s (3 + length (upto_last_newline ws)) []
              else None)"

definition pattern_plain :: matcher where
  \<comment> \<open>\<^verbatim>\<open>/```([\s\S]*?)```/g\<close>\<close>
  "pattern_plain s = (if take 3 s \<noteq> fence then None else close_fence s 3 [])"

definition patterns :: "matcher list" where
  "patterns = [pattern_lang, pattern_newline, pattern_plain]"

definition backtick :: char where
  "backtick = CHR 0x60"

definition inlineCodeRegex :: matcher where
  \<comment> \<open>\<^verbatim>\<open>/`([^`]+)`/g\<close>: a backtick, the whole run of other characters (at least one), a
      backtick\<close>
  "inlineCodeRegex s =
     (case s of
        [] \<Rightarrow> None
      | c # cs \<Rightarrow>
          (let b = takeWhile (\<lambda>x. x \<noteq> backtick) cs
           in if c = backtick \<and> b \<noteq> [] \<and> take 1 (drop (length b) cs) = [backtick]
              then Some [c # b @ [backtick], b] else None))"

section \<open>MessageList.parseContent\<close>

datatype part = Text (content: string) | Code (content: string) (language: string)

definition add_text :: "part list \<Rightarrow> string \<Rightarrow> part list" where
  \<comment> \<open>\<^verbatim>\<open>const t = \<dots>.trim(); if (t) parts.push({ type: 'text', content: t })\<close>\<close>
  "add_text parts s = (let t = trim s in if t \<noteq> [] then parts @ [Text t] else parts)"

definition code_of :: "string list \<Rightarrow> string \<times> string" where
  \<comment> \<open>language and code content from the capture groups\<close>
  "code_of arr =
     (if length arr = 3 then (if arr ! 1 \<noteq> [] then arr ! 1 else ''plaintext'', arr ! 2)
      else if length arr = 2 then (''plaintext'', arr ! 1)
      else (''plaintext'', []))"

fun match_parts :: "string \<Rightarrow> rmatch list \<Rightarrow> nat \<Rightarrow> part list \<Rightarrow> part list \<times> nat" where
  \<comment> \<open>the loop over the matches; the state is \<open>parts\<close> and \<open>lastIndex\<close>\<close>
  "match_parts text [] lastIndex parts = (parts, lastIndex)"
| "match_parts text (m # ms) lastIndex parts =
     (let parts1 = (if lastIndex < m_index m
                    then add_text parts (slice text lastIndex (m_index m)) else parts);
          (language, codeContent) = code_of (m_array m);
          parts2 = (if codeContent \<noteq> [] then parts1 @ [Code codeContent language] else parts1)
      in match_parts text ms (m_index m + length (hd (m_array m))) parts2)"

definition use_matches :: "string \<Rightarrow> rmatch list \<Rightarrow> part list" where
  "use_matches text ms =
     (let (parts, lastIndex) = match_parts text ms 0 []
      in if lastIndex < length text then add_text parts (drop lastIndex text) else parts)"

fun try_patterns :: "matcher list \<Rightarrow> string \<Rightarrow> part list option" where
  \<comment> \<open>the loop over the patterns; \<open>None\<close> is \<^verbatim>\<open>foundMatches = false\<close>\<close>
  "try_patterns [] text = None"
| "try_patterns (p # ps) text =
     (let ms = matchAll p text
      in if ms \<noteq> [] then Some (use_matches text ms) else try_patterns ps text)"

definition parseContent :: "string \<Rightarrow> part list" where
  "parseContent text =
     (case try_patterns patterns text of
        Some parts \<Rightarrow> parts
      | None \<Rightarrow> if trim text \<noteq> [] then [Text text] else [])"

fun selected :: "matcher list \<Rightarrow> string \<Rightarrow> rmatch list" where
  \<comment> \<open>the matches of the first pattern that has any\<close>
  "selected [] text = []"
| "selected (p # ps) text = (if matchAll p text \<noteq> [] then matchAll p text else selected ps text)"

section \<open>MessageList.processInlineCode\<close>

datatype inline_part = PlainText string | InlineCode string

fun inline_parts :: "string \<Rightarrow> rmatch list \<Rightarrow> nat \<Rightarrow> inline_part list \<Rightarrow> inline_part list \<times> nat" where
  \<comment> \<open>the \<^verbatim>\<open>exec\<close> loop\<close>
  "inline_parts text [] lastIndex parts = (parts, lastIndex)"
| "inline_parts text (m # ms) lastIndex parts =
     (let parts1 = (if lastIndex < m_index m
                    then parts @ [PlainText (slice text lastIndex (m_index m))] else parts)
      in inline_parts text ms (m_index m + length (hd (m_array m)))
           (parts1 @ [InlineCode (m_array m ! 1)]))"

definition processInlineCode :: "string \<Rightarrow> inline_part list" where
  "processInlineCode text =
     (let (parts, lastIndex) = inline_parts text (matchAll inlineCodeRegex text) 0 [];
          parts1 = (if lastIndex < length text then parts @ [PlainText (drop lastIndex text)]
                    else parts)
      in if length parts1 = 0 then parts1 @ [PlainText text] else parts1)"

section \<open>The platform's \<^verbatim>\<open>JSON.parse\<close>\<close>

text \<open>
  \<^verbatim>\<open>JSON.parse\<close> is a function of the platform, not of the repository. It is modelled by
  a parser of the JSON grammar (RFC 8259) over the bytes of the text; \<open>None\<close> is the
  \<^verbatim>\<open>SyntaxError\<close> it throws. A number is kept as its literal; what it is read as is
  taken from the literal where the value is used.
\<close>

datatype json =
    JNull
  | JBool bool
  | JNum string
  | JStr string
  | JArr "json list"
  | JObj "(string \<times> json) list"

definition json_ws :: "char \<Rightarrow> bool" where
  "json_ws c = (c = CHR 0x20 \<or> c = CHR 0x09 \<or> c = CHR 0x0A \<or> c = CHR 0x0D)"

definition skip_ws :: "string \<Rightarrow> string" where
  "skip_ws s = dropWhile json_ws s"

definition is_digit :: "char \<Rightarrow> bool" where
  "is_digit c = (48 \<le> (of_char c :: nat) \<and> (of_char c :: nat) \<le> 57)"

definition hex_val :: "char \<Rightarrow> nat option" where
  "hex_val c =
     (let n = (of_char c :: nat)
      in if 48 \<le> n \<and> n \<le> 57 then Some (n - 48)
         else if 65 \<le> n \<and> n \<le> 70 then Some (n - 55)
         else if 97 \<le> n \<and> n \<le> 102 then Some (n - 87)
         else None)"

definition hex4 :: "string \<Rightarrow> nat option" where
  \<comment> \<open>the value of exactly four hexadecimal digits\<close>
  "hex4 s =
     (case map hex_val s of
        [Some a, Some b, Some c, Some d] \<Rightarrow> Some (((a * 16 + b) * 16 + c) * 16 + d)
      | _ \<Rightarrow> None)"

definition utf8 :: "nat \<Rightarrow> string" where
  \<comment> \<open>the bytes of a code point (a lone surrogate is written like any other code point
      of three bytes)\<close>
  "utf8 n =
     (if n < 0x80 then [char_of n]
      else if n < 0x800 then [char_of (0xC0 + n div 64), char_of (0x80 + n mod 64)]
      else if n < 0x10000 then
        [char_of (0xE0 + n div 4096), char_of (0x80 + n div 64 mod 64), char_of (0x80 + n mod 64)]
      else
        [char_of (0xF0 + n div 262144), char_of (0x80 + n div 4096 mod 64),
         char_of (0x80 + n div 64 mod 64), char_of (0x80 + n mod 64)])"

definition escape :: "char \<Rightarrow> char option" where
  \<comment> \<open>the character a two-character escape stands for\<close>
  "escape e =
     (if e = CHR 0x22 \<or> e = CHR 0x5C \<or> e = CHR ''/'' then Some e
      else if e = CHR ''b'' then Some (CHR 0x08)
      else if e = CHR ''f'' then Some (CHR 0x0C)
      else if e = CHR ''n'' then Some (CHR 0x0A)
      else if e = CHR ''r'' then Some (CHR 0x0D)
      else if e = CHR ''t'' then Some (CHR 0x09)
      else None)"

definition low_surrogate :: "string \<Rightarrow> nat option" where
  \<comment> \<open>the text starts with a \<^verbatim>\<open>\u\<close> escape of a low surrogate\<close>
  "low_surrogate r =
     (if take 2 r = [CHR 0x5C, CHR ''u''] then
        (case hex4 (take 4 (drop 2 r)) of
           None \<Rightarrow> None
         | Some lo \<Rightarrow> if 0xDC00 \<le> lo \<and> lo \<le> 0xDFFF then Some lo else None)
      else None)"

definition prepend :: "string \<Rightarrow> (string \<times> string) option \<Rightarrow> (string \<times> string) option" where
  "prepend x r = map_option (\<lambda>(t, rest). (x @ t, rest)) r"

fun string_body :: "string \<Rightarrow> (string \<times> string) option" where
  \<comment> \<open>a string after its opening quote: its value and the text after the closing quote\<close>
  "string_body [] = None"
| "string_body (c # cs) =
     (if c = CHR 0x22 then Some ([], cs)
      else if c = CHR 0x5C then
        (case cs of
           [] \<Rightarrow> None
         | e # r \<Rightarrow>
             if e = CHR ''u'' then
               (case hex4 (take 4 r) of
                  None \<Rightarrow> None
                | Some hi \<Rightarrow>
                    (case (if 0xD800 \<le> hi \<and> hi \<le> 0xDBFF then low_surrogate (drop 4 r) else None) of
                       Some lo \<Rightarrow>
                         prepend (utf8 (0x10000 + (hi - 0xD800) * 1024 + (lo - 0xDC00)))
                           (string_body (drop 10 r))
                     | None \<Rightarrow> prepend (utf8 hi) (string_body (drop 4 r))))
             else (case escape e of
                     None \<Rightarrow> None
                   | Some x \<Rightarrow> prepend [x] (string_body r)))
      else if (of_char c :: nat) < 32 then None
      else prepend [c] (string_body cs))"

definition digits :: "string \<Rightarrow> string" where
  "digits s = takeWhile is_digit s"

definition lex_fraction :: "string \<Rightarrow> string option" where
  \<comment> \<open>the optional fraction at the head of the text; \<open>None\<close> when a point has no digit
      after it\<close>
  "lex_fraction s =
     (if take 1 s = ''.'' then
        (if digits (drop 1 s) = [] then None else Some (''.'' @ digits (drop 1 s)))
      else Some [])"

definition lex_exponent :: "string \<Rightarrow> string option" where
  "lex_exponent s =
     (if take 1 s = ''e'' \<or> take 1 s = ''E'' then
        (let sg = (if take 1 (drop 1 s) = ''+'' \<or> take 1 (drop 1 s) = ''-''
                   then take 1 (drop 1 s) else [])
         in if digits (drop (1 + length sg) s) = [] then None
            else Some (take 1 s @ sg @ digits (drop (1 + length sg) s)))
      else Some [])"

definition lex_number :: "string \<Rightarrow> (string \<times> string) option" where
  \<comment> \<open>the number literal at the head of the text, and the text after it\<close>
  "lex_number s =
     (let sg = (if take 1 s = ''-'' then ''-'' else []);
          ds = digits (drop (length sg) s);
          ip = (if take 1 ds = ''0'' then ''0'' else ds)
      in if ds = [] then None
         else (case lex_fraction (drop (length (sg @ ip)) s) of
                 None \<Rightarrow> None
               | Some fp \<Rightarrow>
                   (case lex_exponent (drop (length (sg @ ip @ fp)) s) of
                      None \<Rightarrow> None
                    | Some ep \<Rightarrow>
                        Some (sg @ ip @ fp @ ep, drop (length (sg @ ip @ fp @ ep)) s))))"

text \<open>
  The fuel bounds the number of nested and chained calls. Every call reads at least one
  byte before it calls again, and twice the length of the text is enough (see
  \<open>JSON_parse_fuel\<close>).
\<close>

fun parse_value :: "nat \<Rightarrow> string \<Rightarrow> (json \<times> string) option"
  and parse_elements :: "nat \<Rightarrow> string \<Rightarrow> (json list \<times> string) option"
  and parse_members :: "nat \<Rightarrow> string \<Rightarrow> ((string \<times> json) list \<times> string) option"
where
  "parse_value 0 s = None"
| "parse_value (Suc n) s =
     (case skip_ws s of
        [] \<Rightarrow> None
      | c # cs \<Rightarrow>
          if c = CHR ''{'' then
            (if take 1 (skip_ws cs) = ''}'' then Some (JObj [], drop 1 (skip_ws cs))
             else map_option (apfst JObj) (parse_members n cs))
          else if c = CHR ''['' then
            (if take 1 (skip_ws cs) = '']'' then Some (JArr [], drop 1 (skip_ws cs))
             else map_option (apfst JArr) (parse_elements n cs))
          else if c = CHR 0x22 then map_option (apfst JStr) (string_body cs)
          else if take 4 (c # cs) = ''true'' then Some (JBool True, drop 4 (c # cs))
          else if take 5 (c # cs) = ''false'' then Some (JBool False, drop 5 (c # cs))
          else if take 4 (c # cs) = ''null'' then Some (JNull, drop 4 (c # cs))
          else map_option (apfst JNum) (lex_number (c # cs)))"
| "parse_elements 0 s = None"
| "parse_elements (Suc n) s =
     (case parse_value n s of
        None \<Rightarrow> None
      | Some (v, r) \<Rightarrow>
          (case skip_ws r of
             [] \<Rightarrow> None
           | d # t \<Rightarrow>
               if d = CHR '','' then map_option (apfst ((#) v)) (parse_elements n t)
               else if d = CHR '']'' then Some ([v], t)
               else None))"
| "parse_members 0 s = None"
| "parse_members (Suc n) s =
     (case skip_ws s of
        [] \<Rightarrow> None
      | q # t \<Rightarrow>
          if q \<noteq> CHR 0x22 then None
          else (case string_body t of
                  None \<Rightarrow> None
                | Some (k, r) \<Rightarrow>
                    (case skip_ws r of
                       [] \<Rightarrow> None
                     | colon # r2 \<Rightarrow>
                         if colon \<noteq> CHR '':'' then None
                         else (case parse_value n r2 of
                                 None \<Rightarrow> None
                               | Some (v, r3) \<Rightarrow>
                                   (case skip_ws r3 of
                                      [] \<Rightarrow> None
                                    | d # t2 \<Rightarrow>
                                        if d = CHR '','' then
                                          map_option (apfst ((#) (k, v))) (parse_members n t2)
                                        else if d = CHR ''}'' then Some ([(k, v)], t2)
                                        else None)))))"

definition JSON_parse :: "string \<Rightarrow> json option" where
  "JSON_parse s =
     (case parse_value (2 * length s + 1) s of
        None \<Rightarrow> None
      | Some (v, r) \<Rightarrow> if skip_ws r = [] then Some v else None)"

subsection \<open>The value of a number literal\<close>

text \<open>
  A number is read as the double nearest to what its literal writes, and printed, by
  \<^verbatim>\<open>Number::toString\<close>, with the fewest digits that are read back as the same double.
\<close>

definition decimal :: "string \<Rightarrow> int" where
  \<comment> \<open>the number that a text of digits writes\<close>
  "decimal ds = foldl (\<lambda>n c. 10 * n + (of_char c - 48)) 0 ds"

definition negative :: "string \<Rightarrow> bool" where
  "negative l = (take 1 l = ''-'')"

definition significand :: "string \<Rightarrow> int" where
  \<comment> \<open>the digits of the literal before its exponent, the point left out\<close>
  "significand l =
     (let body = (if negative l then drop 1 l else l);
          ip = digits body;
          fp = (if take 1 (drop (length ip) body) = ''.''
                then digits (drop (length ip + 1) body) else [])
      in decimal (ip @ fp))"

definition exponent10 :: "string \<Rightarrow> int" where
  \<comment> \<open>the power of ten that the significand is multiplied by: the exponent of the
      literal less the number of digits after the point\<close>
  "exponent10 l =
     (let body = (if negative l then drop 1 l else l);
          ip = digits body;
          fp = (if take 1 (drop (length ip) body) = ''.''
                then digits (drop (length ip + 1) body) else []);
          ep = drop (length ip + (if fp = [] then 0 else 1 + length fp)) body;
          ex = (if ep = [] then 0
                else if take 1 (drop 1 ep) = ''-'' then - decimal (drop 2 ep)
                else if take 1 (drop 1 ep) = ''+'' then decimal (drop 2 ep)
                else decimal (drop 1 ep))
      in ex - int (length fp))"

subsection \<open>The nearest double\<close>

datatype magnitude = Zero | Finite int int | Infinite

function bits :: "int \<Rightarrow> int" where
  \<comment> \<open>the number of binary digits\<close>
  "bits n = (if n \<le> 0 then 0 else 1 + bits (n div 2))"
  by pat_completeness auto

termination bits
  by (relation "measure nat") auto

declare bits.simps [simp del]

definition nearest :: "int \<Rightarrow> int \<Rightarrow> magnitude" where
  \<comment> \<open>the double nearest to \<open>n * 10 ^ e\<close>, ties to the even significand: \<open>Finite m x\<close> is
      \<open>m * 2 ^ x\<close> with \<open>m < 2 ^ 53\<close> and \<open>- 1074 \<le> x \<le> 971\<close>, and \<open>2 ^ 52 \<le> m\<close> unless
      \<open>x = - 1074\<close>\<close>
  "nearest n e =
     (if n = 0 then Zero
      else
        (let a = (if 0 \<le> e then n * 10 ^ nat e else n);
             b = (if 0 \<le> e then 1 else 10 ^ nat (- e));
             t0 = bits a - bits b;
             t = (if (if 0 \<le> t0 then b * 2 ^ nat t0 \<le> a else b \<le> a * 2 ^ nat (- t0))
                  then t0 else t0 - 1);
             x = max (- 1074) (t - 52);
             num = a * 2 ^ nat (- x);
             den = b * 2 ^ nat x;
             q = num div den;
             r = num mod den;
             m = (if den < 2 * r \<or> (2 * r = den \<and> odd q) then q + 1 else q);
             m' = (if m = 2 ^ 53 then 2 ^ 52 else m);
             x' = (if m = 2 ^ 53 then x + 1 else x)
         in if m' = 0 then Zero else if 971 < x' then Infinite else Finite m' x'))"

subsection \<open>\<^verbatim>\<open>Number::toString\<close>\<close>

definition scaled :: "int \<Rightarrow> int \<Rightarrow> int \<Rightarrow> int" where
  \<comment> \<open>\<open>c * 10 ^ p\<close> and \<open>v * 2 ^ g\<close>, both multiplied by the powers of 10 and of 2 that make
      them whole: \<open>scaled c p g\<close> is to \<open>binary v g p\<close> as \<open>c * 10 ^ p\<close> is to \<open>v * 2 ^ g\<close>\<close>
  "scaled c p g = c * 10 ^ nat p * 2 ^ nat (- g)"

definition binary :: "int \<Rightarrow> int \<Rightarrow> int \<Rightarrow> int" where
  "binary v g p = v * 2 ^ nat g * 10 ^ nat (- p)"

definition magnitude10 :: "int \<Rightarrow> int \<Rightarrow> int" where
  \<comment> \<open>the \<open>n\<close> with \<open>10 ^ (n - 1) \<le> v * 2 ^ g < 10 ^ n\<close>, for a double: looked for upwards
      from 1 when \<open>1 \<le> v * 2 ^ g\<close>, downwards from 0 otherwise\<close>
  "magnitude10 v g =
     (if scaled 1 0 g \<le> binary v g 0
      then (case List.find (\<lambda>n. binary v g n < scaled 1 n g) [1 .. 330] of
              Some n \<Rightarrow> n | None \<Rightarrow> 331)
      else (case List.find (\<lambda>j. scaled 1 (- j - 1) g \<le> binary v g (- j - 1)) [0 .. 330] of
              Some j \<Rightarrow> - j | None \<Rightarrow> - 331))"

definition candidate :: "int \<Rightarrow> int \<Rightarrow> int \<Rightarrow> int \<Rightarrow> int option" where
  \<comment> \<open>for the double \<open>m * 2 ^ x\<close> and \<open>n\<close> its magnitude: the \<open>s\<close> such that \<open>s * 10 ^ (n - k)\<close>
      is read back as this double, the nearest one to it when there are two (the even one
      when both are as near), if there is any. What is read back as the double lies between
      the middles to the doubles next to it, the middles included when \<open>m\<close> is even.\<close>
  "candidate m x n k =
     (let g = x - 2;
          p = n - k;
          v = 4 * m;
          lo = (if m = 2 ^ 52 \<and> - 1074 < x then v - 1 else v - 2);
          hi = v + 2;
          inside = (\<lambda>c. if even m
                         then binary lo g p \<le> scaled c p g \<and> scaled c p g \<le> binary hi g p
                         else binary lo g p < scaled c p g \<and> scaled c p g < binary hi g p);
          s = binary v g p div scaled 1 p g;
          below = binary v g p - scaled s p g;
          above = scaled (s + 1) p g - binary v g p
      in if inside s \<and> inside (s + 1)
         then Some (if below < above \<or> (below = above \<and> even s) then s else s + 1)
         else if inside s then Some s
         else if inside (s + 1) then Some (s + 1)
         else None)"

definition shortest :: "int \<Rightarrow> int \<Rightarrow> int \<Rightarrow> int \<times> int" where
  \<comment> \<open>the least number of digits \<open>k\<close> that has a candidate, and the candidate (seventeen
      digits are always enough)\<close>
  "shortest m x n =
     (case List.find (\<lambda>k. candidate m x n k \<noteq> None) [1 .. 17] of
        Some k \<Rightarrow> (k, the (candidate m x n k))
      | None \<Rightarrow> (17, 0))"

fun numeral10 :: "nat \<Rightarrow> int \<Rightarrow> string" where
  \<comment> \<open>the last \<open>k\<close> decimal digits of a number\<close>
  "numeral10 0 s = []"
| "numeral10 (Suc k) s = numeral10 k (s div 10) @ [char_of (48 + s mod 10)]"

definition decimal_text :: "int \<Rightarrow> string" where
  \<comment> \<open>a number below 1000 in decimal digits\<close>
  "decimal_text s =
     (if s < 10 then numeral10 1 s else if s < 100 then numeral10 2 s else numeral10 3 s)"

definition layout :: "string \<Rightarrow> int \<Rightarrow> string" where
  \<comment> \<open>the digits \<open>ds\<close> with the point after the first \<open>n\<close> of them\<close>
  "layout ds n =
     (let k = int (length ds)
      in if k \<le> n \<and> n \<le> 21 then ds @ replicate (nat (n - k)) (CHR ''0'')
         else if 0 < n \<and> n \<le> 21 then take (nat n) ds @ ''.'' @ drop (nat n) ds
         else if - 6 < n \<and> n \<le> 0 then ''0.'' @ replicate (nat (- n)) (CHR ''0'') @ ds
         else (if k = 1 then ds else take 1 ds @ ''.'' @ drop 1 ds)
              @ ''e'' @ (if n - 1 < 0 then ''-'' else ''+'') @ decimal_text \<bar>n - 1\<bar>)"

definition finite_text :: "int \<Rightarrow> int \<Rightarrow> string" where
  "finite_text m x =
     (let n = magnitude10 (4 * m) (x - 2);
          (k, s) = shortest m x n
      in if s = 10 ^ nat k then layout ''1'' (n + 1) else layout (numeral10 (nat k) s) n)"

definition number_text :: "string \<Rightarrow> string" where
  \<comment> \<open>what the platform prints for the number that it reads from a literal\<close>
  "number_text l =
     (case nearest (significand l) (exponent10 l) of
        Zero \<Rightarrow> ''0''
      | Infinite \<Rightarrow> (if negative l then ''-Infinity'' else ''Infinity'')
      | Finite m x \<Rightarrow> (if negative l then ''-'' else []) @ finite_text m x)"

subsection \<open>Reading a parsed value\<close>

definition property :: "json \<Rightarrow> string \<Rightarrow> json option" where
  \<comment> \<open>\<^verbatim>\<open>parsed.key\<close> for a value other than \<^verbatim>\<open>null\<close>: the member of an object (the last
      one when the key is repeated), \<^verbatim>\<open>undefined\<close> (\<open>None\<close>) when there is none or the
      value is not an object\<close>
  "property v key = (case v of JObj kvs \<Rightarrow> map_of (rev kvs) key | _ \<Rightarrow> None)"

definition nonzero :: "string \<Rightarrow> bool" where
  \<comment> \<open>the number read from a literal is not zero (a literal that is not zero may be read
      as zero: \<^verbatim>\<open>1e-400\<close>)\<close>
  "nonzero l = (nearest (significand l) (exponent10 l) \<noteq> Zero)"

definition truthy :: "json option \<Rightarrow> bool" where
  \<comment> \<open>the condition \<^verbatim>\<open>if (v)\<close>\<close>
  "truthy v =
     (case v of
        None \<Rightarrow> False
      | Some JNull \<Rightarrow> False
      | Some (JBool b) \<Rightarrow> b
      | Some (JNum l) \<Rightarrow> nonzero l
      | Some (JStr s) \<Rightarrow> s \<noteq> []
      | Some (JArr _) \<Rightarrow> True
      | Some (JObj _) \<Rightarrow> True)"

fun join :: "string \<Rightarrow> string list \<Rightarrow> string" where
  "join sep [] = []"
| "join sep [x] = x"
| "join sep (x # y # ys) = x @ sep @ join sep (y # ys)"

fun to_text :: "json \<Rightarrow> string" where
  \<comment> \<open>the text that \<^verbatim>\<open>+=\<close> appends for a value: a string is itself; a number is printed
      by \<^verbatim>\<open>Number::toString\<close>; an array is its elements' texts joined by commas, \<^verbatim>\<open>null\<close>
      elements empty\<close>
  "to_text JNull = ''null''"
| "to_text (JBool b) = (if b then ''true'' else ''false'')"
| "to_text (JNum l) = number_text l"
| "to_text (JStr s) = s"
| "to_text (JArr vs) = join '','' (map (\<lambda>v. if v = JNull then [] else to_text v) vs)"
| "to_text (JObj kvs) = ''[object Object]''"

section \<open>App: the session\<close>

subsection \<open>Messages and requests\<close>

datatype role = User | Assistant

record message =
  role :: role
  content :: string
  timestamp :: nat
  screenshot :: "string option"
  isStreaming :: "bool option"

text \<open>What one call of \<^verbatim>\<open>fetch\<close> sends to \<^verbatim>\<open>/send_message\<close>.\<close>

record request =
  req_messages :: "(role \<times> string) list"
  req_screenshot :: "string option"
  req_signal :: nat

text \<open>
  \<^verbatim>\<open>sendMessage\<close> and \<^verbatim>\<open>toggleVoiceRecording\<close> are asynchronous: a call that has sent its
  request is suspended, first until the response arrives, then at each read of the body.
\<close>

datatype point = AwaitingResponse | Reading

subsection \<open>The platform's \<^verbatim>\<open>TextDecoder\<close>\<close>

text \<open>
  \<^verbatim>\<open>decoder.decode(value, { stream: true })\<close> turns the bytes of a read into text. It is the
  UTF-8 decoder of the Encoding Standard, fed byte by byte: the bytes of a character that
  is not complete yet are held until the next bytes come (also across reads), a byte that
  cannot start or continue a character gives U+FFFD, and the first character of the body
  is dropped when it is the byte order mark U+FEFF.
\<close>

record text_decoder =
  held :: string
  bomSeen :: bool

definition new_decoder :: text_decoder where
  \<comment> \<open>\<^verbatim>\<open>new TextDecoder()\<close>\<close>
  "new_decoder = \<lparr>held = [], bomSeen = False\<rparr>"

definition lead_length :: "char \<Rightarrow> nat" where
  \<comment> \<open>the number of bytes of the character that the byte starts: 1 for ASCII, 2 to 4 for
      the lead bytes C2 to F4, 0 for a byte that starts no character\<close>
  "lead_length b =
     (let n = (of_char b :: nat)
      in if n < 0x80 then 1
         else if 0xC2 \<le> n \<and> n \<le> 0xDF then 2
         else if 0xE0 \<le> n \<and> n \<le> 0xEF then 3
         else if 0xF0 \<le> n \<and> n \<le> 0xF4 then 4
         else 0)"

fun continues :: "string \<Rightarrow> char \<Rightarrow> bool" where
  \<comment> \<open>the byte may come next after the held bytes: between the lower and the upper
      boundary, which the lead bytes E0, ED, F0 and F4 narrow for the second byte\<close>
  "continues [] b = False"
| "continues [l] b =
     ((if l = CHR 0xE0 then 0xA0 else if l = CHR 0xF0 then 0x90 else 0x80) \<le> (of_char b :: nat)
      \<and> (of_char b :: nat) \<le> (if l = CHR 0xED then 0x9F else if l = CHR 0xF4 then 0x8F else 0xBF))"
| "continues (l # h) b = (0x80 \<le> (of_char b :: nat) \<and> (of_char b :: nat) \<le> 0xBF)"

definition replacement :: string where
  \<comment> \<open>U+FFFD\<close>
  "replacement = [CHR 0xEF, CHR 0xBF, CHR 0xBD]"

definition byte_order_mark :: string where
  \<comment> \<open>U+FEFF\<close>
  "byte_order_mark = [CHR 0xEF, CHR 0xBB, CHR 0xBF]"

definition emit :: "string \<Rightarrow> text_decoder \<Rightarrow> string \<times> text_decoder" where
  \<comment> \<open>a character leaves the decoder; nothing is held after it\<close>
  "emit cp d =
     (if \<not> bomSeen d \<and> cp = byte_order_mark then [] else cp, \<lparr>held = [], bomSeen = True\<rparr>)"

definition start :: "char \<Rightarrow> text_decoder \<Rightarrow> string \<times> text_decoder" where
  \<comment> \<open>a byte that comes when nothing is held\<close>
  "start b d =
     (if lead_length b = 1 then emit [b] d
      else if lead_length b = 0 then emit replacement d
      else ([], d\<lparr>held := [b]\<rparr>))"

definition decode_byte :: "text_decoder \<Rightarrow> char \<Rightarrow> string \<times> text_decoder" where
  \<comment> \<open>one byte: it starts a character, or it continues the held one (and completes it when
      the character has all its bytes), or it cannot continue it: then the held bytes give
      U+FFFD and the byte is read again with nothing held\<close>
  "decode_byte d b =
     (if held d = [] then start b d
      else if continues (held d) b then
        (if Suc (length (held d)) = lead_length (hd (held d)) then emit (held d @ [b]) d
         else ([], d\<lparr>held := held d @ [b]\<rparr>))
      else (let (o1, d1) = emit replacement d; (o2, d2) = start b d1 in (o1 @ o2, d2)))"

fun decode :: "text_decoder \<Rightarrow> string \<Rightarrow> string \<times> text_decoder" where
  \<comment> \<open>the bytes of one read: the text they give, and the decoder after them\<close>
  "decode d [] = ([], d)"
| "decode d (b # bs) =
     (let (o1, d1) = decode_byte d b; (o2, d2) = decode d1 bs in (o1 @ o2, d2))"

subsection \<open>State\<close>

text \<open>
  The state holds the component's state variables (\<open>messages\<close> to \<open>error\<close>), the
  reference \<open>abortController\<close> (a controller is known by its number), the suspended
  call (\<open>call\<close>, \<open>None\<close> when no call is suspended on \<^verbatim>\<open>/send_message\<close>) with the
  local variables it keeps across its suspensions (\<open>signal\<close>, \<open>updatedMessages\<close>,
  \<open>decoder\<close>, \<open>accumulatedContent\<close>), and three observations: how many controllers have been
  created, the requests sent so far, and whether an updater of \<open>messages\<close> has thrown.
\<close>

record state =
  messages :: "message list"
  input :: string
  isLoading :: bool
  isRecording :: bool
  error :: "string option"
  abortController :: "nat option"
  call :: "point option"
  signal :: nat
  updatedMessages :: "message list"
  decoder :: text_decoder
  accumulatedContent :: string
  controllers :: nat
  requests :: "request list"
  crashed :: bool

definition init :: state where
  "init =
     \<lparr>messages = [], input = [], isLoading = False, isRecording = False, error = None,
      abortController = None, call = None, signal = 0, updatedMessages = [],
      decoder = new_decoder, accumulatedContent = [], controllers = 0, requests = [],
      crashed = False\<rparr>"

definition status :: "state \<Rightarrow> string" where
  \<comment> \<open>the header's status line\<close>
  "status st =
     (if isLoading st then ''Thinking...'' else if isRecording st then ''Recording...''
      else ''Ready'')"

subsection \<open>The read loop\<close>

text \<open>What is thrown: the error's \<^verbatim>\<open>name\<close> and its \<^verbatim>\<open>message\<close>.\<close>

datatype exn = Thrown string string

fun split :: "char \<Rightarrow> string \<Rightarrow> string list" where
  \<comment> \<open>\<^verbatim>\<open>s.split(sep)\<close> for a separator of one character\<close>
  "split sep [] = [[]]"
| "split sep (c # cs) =
     (if c = sep then [] # split sep cs
      else (case split sep cs of [] \<Rightarrow> [[c]] | l # ls \<Rightarrow> (c # l) # ls))"

definition update_last :: "(message \<Rightarrow> message) \<Rightarrow> state \<Rightarrow> state" where
  \<comment> \<open>\<^verbatim>\<open>setMessages(prev => { const updated = [...prev]; const lastMsg = updated[updated.length - 1];
      if (lastMsg.role === 'assistant') { f(lastMsg) } return updated; })\<close>.
      On an empty list \<^verbatim>\<open>lastMsg\<close> is undefined and reading its role throws.\<close>
  "update_last f st =
     (if messages st = [] then st\<lparr>crashed := True\<rparr>
      else if role (last (messages st)) = Assistant
      then st\<lparr>messages := butlast (messages st) @ [f (last (messages st))]\<rparr>
      else st)"

definition text_of :: "json option \<Rightarrow> string" where
  "text_of v = (case v of None \<Rightarrow> ''undefined'' | Some j \<Rightarrow> to_text j)"

definition try_data :: "string \<Rightarrow> state \<Rightarrow> exn + state" where
  \<comment> \<open>the body of the \<^verbatim>\<open>try\<close> block; \<open>Inl\<close> is what it throws (the platform's message for a
      text that does not parse, or for reading a property of \<^verbatim>\<open>null\<close>, is left empty)\<close>
  "try_data data st =
     (case JSON_parse data of
        None \<Rightarrow> Inl (Thrown ''SyntaxError'' [])
      | Some parsed \<Rightarrow>
          if parsed = JNull then Inl (Thrown ''TypeError'' [])
          else if truthy (property parsed ''error'')
          then Inl (Thrown ''Error'' (text_of (property parsed ''error'')))
          else if truthy (property parsed ''content'')
          then Inr (update_last
                      (\<lambda>lastMsg. lastMsg\<lparr>content :=
                                    accumulatedContent st @ text_of (property parsed ''content'')\<rparr>)
                      (st\<lparr>accumulatedContent :=
                            accumulatedContent st @ text_of (property parsed ''content'')\<rparr>))
          else Inr st)"

definition on_data :: "string \<Rightarrow> state \<Rightarrow> state" where
  \<comment> \<open>\<^verbatim>\<open>try { \<dots> } catch (e) { /* Skip invalid JSON */ }\<close>: whatever the block throws is dropped\<close>
  "on_data data st = (case try_data data st of Inl e \<Rightarrow> st | Inr st' \<Rightarrow> st')"

fun process_lines :: "string list \<Rightarrow> state \<Rightarrow> state" where
  \<comment> \<open>\<^verbatim>\<open>for (const line of lines)\<close>; the \<^verbatim>\<open>break\<close> at \<^verbatim>\<open>[DONE]\<close> leaves this loop only\<close>
  "process_lines [] st = st"
| "process_lines (line # lines) st =
     (if starts_with line ''data: '' then
        (if drop 6 line = ''[DONE]''
         then update_last (\<lambda>lastMsg. lastMsg\<lparr>isStreaming := Some False\<rparr>) st
         else process_lines lines (on_data (drop 6 line) st))
      else process_lines lines st)"

definition read_text :: "string \<Rightarrow> state \<Rightarrow> state" where
  \<comment> \<open>\<^verbatim>\<open>const lines = chunk.split('\n'); for (const line of lines) \<dots>\<close>\<close>
  "read_text chunk st = process_lines (split (CHR 0x0A) chunk) st"

definition read_chunk :: "string \<Rightarrow> state \<Rightarrow> state" where
  \<comment> \<open>one turn of \<^verbatim>\<open>while (true)\<close> on the bytes \<open>value\<close> that \<^verbatim>\<open>reader.read()\<close> delivered:
      \<^verbatim>\<open>const chunk = decoder.decode(value, { stream: true })\<close>, then the lines of the chunk\<close>
  "read_chunk value st =
     (case decode (decoder st) value of
        (chunk, d) \<Rightarrow> read_text chunk (st\<lparr>decoder := d\<rparr>))"

subsection \<open>The ends of a call\<close>

definition catch_block :: "exn \<Rightarrow> state \<Rightarrow> state" where
  \<comment> \<open>\<^verbatim>\<open>catch (err) { if (err.name === 'AbortError') { console.log(\<dots>) } else { setError(`Error: ${err.message}`) } }\<close>\<close>
  "catch_block err st =
     (case err of
        Thrown name msg \<Rightarrow>
          if name = ''AbortError'' then st else st\<lparr>error := Some (''Error: '' @ msg)\<rparr>)"

definition finally_block :: "state \<Rightarrow> state" where
  \<comment> \<open>\<^verbatim>\<open>finally { abortControllerRef.current = null; setIsLoading(false); \<dots> }\<close>\<close>
  "finally_block st = st\<lparr>abortController := None, isLoading := False\<rparr>"

definition ended :: "state \<Rightarrow> state" where
  \<comment> \<open>the suspended call has returned or thrown: it is suspended no more\<close>
  "ended st = (finally_block st)\<lparr>call := None\<rparr>"

subsection \<open>The collaborators' replies\<close>

text \<open>
  A request to a collaborator is rejected with a message (the request or the reading of
  its body failed), or it is answered: \<^verbatim>\<open>response.ok\<close> and what comes with it.
\<close>

datatype 'a reply = Rejected string | Replied bool 'a

text \<open>The fields that the source reads of a collaborator's JSON body.\<close>

record body =
  data_status :: "string option"
  data_message :: "string option"
  data_error :: "string option"
  data_transcription :: "string option"
  data_screenshot :: "string option"

record collab =
  start_recording :: "body reply"
  stop_recording :: "string option"
  process_audio :: "body reply"

definition present :: "string option \<Rightarrow> bool" where
  \<comment> \<open>the condition \<^verbatim>\<open>if (a)\<close> for a string that may be missing: there, and not empty\<close>
  "present a = (case a of None \<Rightarrow> False | Some s \<Rightarrow> s \<noteq> [])"

definition or_else :: "string option \<Rightarrow> string \<Rightarrow> string" where
  \<comment> \<open>\<^verbatim>\<open>a || b\<close> for a string that may be missing\<close>
  "or_else a b = (case a of None \<Rightarrow> b | Some s \<Rightarrow> if s = [] then b else s)"

subsection \<open>\<^verbatim>\<open>App.sendMessage\<close>\<close>

definition captureScreenshot :: "body reply \<Rightarrow> state \<Rightarrow> state \<times> string option" where
  "captureScreenshot r st =
     (case r of
        Rejected msg \<Rightarrow> (st\<lparr>error := Some (''Screenshot failed: '' @ msg)\<rparr>, None)
      | Replied ok data \<Rightarrow>
          if ok then (st\<lparr>error := None\<rparr>, data_screenshot data)
          else (st\<lparr>error := Some (''Screenshot failed: ''
                                   @ or_else (data_error data) ''Failed to capture screenshot'')\<rparr>,
                None))"

definition send_request :: "message \<Rightarrow> string option \<Rightarrow> state \<Rightarrow> state" where
  \<comment> \<open>from \<^verbatim>\<open>const updatedMessages = [...messages, userMessage]\<close> to the \<^verbatim>\<open>await fetch\<close> of
      \<^verbatim>\<open>/send_message\<close>, where the call is suspended\<close>
  "send_request userMessage screenshotBase64 st =
     st\<lparr>messages := messages st @ [userMessage],
        updatedMessages := messages st @ [userMessage],
        abortController := Some (controllers st),
        signal := controllers st,
        controllers := Suc (controllers st),
        requests := requests st @
          [\<lparr>req_messages = map (\<lambda>m. (role m, content m)) (messages st @ [userMessage]),
            req_screenshot = screenshotBase64,
            req_signal = controllers st\<rparr>],
        call := Some AwaitingResponse\<rparr>"

definition sendMessage :: "bool \<Rightarrow> body reply \<Rightarrow> nat \<Rightarrow> state \<Rightarrow> state" where
  \<comment> \<open>up to the \<^verbatim>\<open>await fetch\<close>. \<open>shot\<close> is the reply to \<^verbatim>\<open>captureScreenshot\<close>'s request, read
      only when \<open>withScreenshot\<close>; \<open>now\<close> is \<^verbatim>\<open>Date.now()\<close>.\<close>
  "sendMessage withScreenshot shot now st =
     (if (trim (input st) = [] \<and> \<not> withScreenshot) \<or> isLoading st then st
      else
        (let (st1, screenshotBase64) =
               (if withScreenshot
                then captureScreenshot shot (st\<lparr>isLoading := True, error := None\<rparr>)
                else (st\<lparr>isLoading := True, error := None\<rparr>, None))
         in if withScreenshot \<and> \<not> present screenshotBase64
            then finally_block (st1\<lparr>isLoading := False\<rparr>)
            else send_request
                   \<lparr>role = User,
                    content = or_else (Some (trim (input st))) ''Analyze this screenshot'',
                    timestamp = now,
                    screenshot = (if present screenshotBase64 then screenshotBase64 else None),
                    isStreaming = None\<rparr>
                   screenshotBase64
                   (st1\<lparr>input := []\<rparr>)))"

definition on_response :: "bool reply \<Rightarrow> nat \<Rightarrow> state \<Rightarrow> state" where
  \<comment> \<open>the call resumes from \<^verbatim>\<open>await fetch\<close>: rejected, or answered with \<^verbatim>\<open>response.ok\<close> and
      whether the response has a body to read\<close>
  "on_response r now st =
     (case r of
        Rejected msg \<Rightarrow> ended (catch_block (Thrown ''TypeError'' msg) st)
      | Replied ok has_body \<Rightarrow>
          if ok then
            (let st1 = st\<lparr>messages := updatedMessages st @
                            [\<lparr>role = Assistant, content = [], timestamp = now,
                              screenshot = None, isStreaming = Some True\<rparr>],
                          decoder := new_decoder,
                          accumulatedContent := []\<rparr>
             in if has_body then st1\<lparr>call := Some Reading\<rparr> else ended st1)
          else ended (catch_block (Thrown ''Error'' ''Failed to send message'') st))"

subsection \<open>\<^verbatim>\<open>App.stopGeneration\<close>\<close>

text \<open>
  Aborting a controller rejects, with an \<^verbatim>\<open>AbortError\<close>, the \<^verbatim>\<open>fetch\<close> or the read that the
  call holding its signal is suspended on; the call then runs its \<^verbatim>\<open>catch\<close> and \<^verbatim>\<open>finally\<close>
  before any other event is handled, and reads nothing more.
\<close>

definition stopGeneration :: "state \<Rightarrow> state" where
  "stopGeneration st =
     (case abortController st of
        None \<Rightarrow> st
      | Some c \<Rightarrow>
          if call st \<noteq> None \<and> signal st = c
          then ended (catch_block (Thrown ''AbortError'' [])
                        (st\<lparr>abortController := None, isLoading := False\<rparr>))
          else st\<lparr>abortController := None, isLoading := False\<rparr>)"

subsection \<open>\<^verbatim>\<open>App.toggleVoiceRecording\<close>\<close>

definition blank :: "string option \<Rightarrow> bool" where
  \<comment> \<open>\<^verbatim>\<open>!transcription || !transcription.trim()\<close>\<close>
  "blank t = (if present t then trim (or_else t []) = [] else True)"

definition toggleVoiceRecording :: "collab \<Rightarrow> nat \<Rightarrow> state \<Rightarrow> state" where
  \<comment> \<open>up to the \<^verbatim>\<open>await fetch\<close> of \<^verbatim>\<open>/send_message\<close>; the collaborators' replies are in \<open>c\<close>\<close>
  "toggleVoiceRecording c now st =
     (if isLoading st then st
      else if \<not> isRecording st then
        (case start_recording c of
           Rejected msg \<Rightarrow> st\<lparr>error := Some (''Failed to start recording: '' @ msg)\<rparr>
         | Replied ok data \<Rightarrow>
             if ok \<and> data_status data = Some ''recording started''
             then st\<lparr>error := None, isRecording := True\<rparr>
             else st\<lparr>error := Some (''Failed to start recording: ''
                                     @ or_else (data_message data) ''Failed to start recording'')\<rparr>)
      else
        (let st1 = st\<lparr>isRecording := False, isLoading := True\<rparr>
         in case stop_recording c of
              Some msg \<Rightarrow> finally_block (catch_block (Thrown ''TypeError'' msg) st1)
            | None \<Rightarrow>
                (case process_audio c of
                   Rejected msg \<Rightarrow> finally_block (catch_block (Thrown ''TypeError'' msg) st1)
                 | Replied ok data \<Rightarrow>
                     if \<not> ok then
                       finally_block
                         (catch_block
                            (Thrown ''Error'' (or_else (data_error data) ''Failed to process audio''))
                            st1)
                     else if blank (data_transcription data) then
                       finally_block (st1\<lparr>error := Some ''No speech detected'', isLoading := False\<rparr>)
                     else
                       send_request
                         \<lparr>role = User, content = or_else (data_transcription data) [],
                          timestamp = now, screenshot = None, isStreaming = None\<rparr>
                         None st1)))"

subsection \<open>Events\<close>

datatype event =
    SetInput string
  | SendMessage bool "body reply" nat
  | ToggleVoiceRecording collab nat
  | StopGeneration
  | Response "bool reply" nat
  | Chunk string
  | StreamEnd
  | ReadError string

definition step :: "state \<Rightarrow> event \<Rightarrow> state" where
  \<comment> \<open>The first four events are the user's: typing (the text area is disabled while loading
      or recording), the send buttons and the Enter key, the voice button and its shortcut,
      the stop button. The last four resume the suspended call: the response to its
      request, a chunk of the body, the end of the body, a read that fails. They have no
      effect when no call is suspended there.\<close>
  "step st ev =
     (case ev of
        SetInput s \<Rightarrow> if isLoading st \<or> isRecording st then st else st\<lparr>input := s\<rparr>
      | SendMessage withScreenshot shot now \<Rightarrow> sendMessage withScreenshot shot now st
      | ToggleVoiceRecording c now \<Rightarrow> toggleVoiceRecording c now st
      | StopGeneration \<Rightarrow> stopGeneration st
      | Response r now \<Rightarrow> if call st = Some AwaitingResponse then on_response r now st else st
      | Chunk value \<Rightarrow> if call st = Some Reading then read_chunk value st else st
      | StreamEnd \<Rightarrow> if call st = Some Reading then ended st else st
      | ReadError msg \<Rightarrow>
          if call st = Some Reading then ended (catch_block (Thrown ''TypeError'' msg) st)
          else st)"

fun run :: "state \<Rightarrow> event list \<Rightarrow> state" where
  "run st [] = st"
| "run st (ev # evs) = run (step st ev) evs"

text \<open>What the claims about the segmenter and the annotator speak of.\<close>

definition is_code :: "part \<Rightarrow> bool" where
  "is_code p = (case p of Code _ _ \<Rightarrow> True | Text _ \<Rightarrow> False)"

definition code_part :: "rmatch \<Rightarrow> part" where
  \<comment> \<open>the code part a match stands for\<close>
  "code_part m = (let (language, codeContent) = code_of (m_array m) in Code codeContent language)"

definition has_code :: "rmatch \<Rightarrow> bool" where
  \<comment> \<open>the match captured a body that is not empty\<close>
  "has_code m = (snd (code_of (m_array m)) \<noteq> [])"

definition no_span :: "string \<Rightarrow> bool" where
  \<comment> \<open>no backtick, run of one or more other characters, backtick anywhere in the text\<close>
  "no_span text =
     (\<nexists>a b c. text = a @ [backtick] @ b @ [backtick] @ c \<and> b \<noteq> [] \<and> backtick \<notin> set b)"

text \<open>What the claims about the decoder and the session speak of.\<close>

definition first_turn :: "event list" where
  \<comment> \<open>a turn up to its first read: the user types \<^verbatim>\<open>hi\<close> and sends it (with no screenshot,
      so the reply to the capture request is not read), and the response arrives with a
      body\<close>
  "first_turn =
     [SetInput ''hi'', SendMessage False (Rejected []) 1, Response (Replied True True) 2]"

definition done_line :: string where
  "done_line = ''data: [DONE]''"


definition streaming :: "message \<Rightarrow> bool" where
  "streaming m = (isStreaming m = Some True)"

definition transcript_invariant :: "message list \<Rightarrow> bool" where
  \<comment> \<open>at most one message is streaming, and no message but the last is\<close>
  "transcript_invariant ms =
     (length (filter streaming ms) \<le> 1 \<and> filter streaming (butlast ms) = [])"

fun settled :: "state \<Rightarrow> event list \<Rightarrow> bool" where
  \<comment> \<open>in this run, no message is streaming whenever a message is submitted, that is,
      whenever an event sends a request to \<^verbatim>\<open>/send_message\<close>\<close>
  "settled st [] = True"
| "settled st (ev # evs) =
     ((if requests (step st ev) \<noteq> requests st then filter streaming (messages st) = []
       else True)
      \<and> settled (step st ev) evs)"


definition consistent :: "state \<Rightarrow> bool" where
  \<comment> \<open>the invariant with what a call that awaits its response adds to it: the list it will
      extend is the transcript, and no message of it is streaming\<close>
  "consistent st =
     (transcript_invariant (messages st)
      \<and> (if call st = Some AwaitingResponse
         then updatedMessages st = messages st \<and> filter streaming (messages st) = []
         else True))"

definition silence :: collab where
  \<comment> \<open>the recording collaborator when nothing was said: the recording starts and stops, and
      the transcription is a space and a line feed\<close>
  "silence =
     \<lparr>start_recording =
        Replied True \<lparr>data_status = Some ''recording started'', data_message = None,
                      data_error = None, data_transcription = None, data_screenshot = None\<rparr>,
      stop_recording = None,
      process_audio =
        Replied True \<lparr>data_status = None, data_message = None, data_error = None,
                      data_transcription = Some [CHR 0x20, CHR 0x0A], data_screenshot = None\<rparr>\<rparr>"

definition sound :: "state \<Rightarrow> bool" where
  \<comment> \<open>what the model relies on: no updater has thrown; a suspended call goes with
      \<open>isLoading\<close> and holds the controller that the reference names; a call that reads
      has a transcript that is not empty\<close>
  "sound st =
     (\<not> crashed st
      \<and> (if call st = None then True
         else isLoading st \<and> abortController st = Some (signal st))
      \<and> (if call st = Some Reading then messages st \<noteq> [] else True))"

definition at_rest :: text_decoder where
  \<comment> \<open>the decoder holds no byte and is past the first character of the body\<close>
  "at_rest = \<lparr>held = [], bomSeen = True\<rparr>"

definition chunk_text :: "state \<Rightarrow> string \<Rightarrow> string" where
  \<comment> \<open>the text that the decoder of this state makes of the bytes of a read\<close>
  "chunk_text st value = fst (decode (decoder st) value)"

definition decoder_after :: "state \<Rightarrow> string \<Rightarrow> text_decoder" where
  \<comment> \<open>the decoder after these bytes\<close>
  "decoder_after st value = snd (decode (decoder st) value)"

section \<open>The parser's fuel\<close>

text \<open>
  Every call of the parser that returns has read at least one byte, and from twice the
  length of the text on, more fuel gives the same result: the fuel of \<open>JSON_parse\<close> never
  runs out.
\<close>

lemma skip_ws_le: "length (skip_ws s) \<le> length s"
  by (simp add: skip_ws_def length_dropWhile_le)

lemma skip_ws_Cons: "skip_ws s = c # cs \<Longrightarrow> length cs < length s"
  using skip_ws_le [of s] by simp

lemma prepend_Some: "prepend x r = Some (v, rest) \<Longrightarrow> \<exists>t. r = Some (t, rest)"
  by (cases r) (auto simp: prepend_def)

lemma string_body_shorter: "string_body s = Some (v, r) \<Longrightarrow> length r < length s"
proof (induction s arbitrary: v r rule: string_body.induct)
  case 1
  then show ?case by simp
next
  case (2 c cs)
  show ?case
  proof (cases "c = CHR 0x22")
    case True
    with "2.prems" show ?thesis by simp
  next
    case q: False
    show ?thesis
    proof (cases "c = CHR 0x5C")
      case False
      with q "2.prems" have "prepend [c] (string_body cs) = Some (v, r)"
        by (simp split: if_splits)
      then obtain t where "string_body cs = Some (t, r)" using prepend_Some by blast
      with "2.IH"(4) [OF q False] "2.prems" q False show ?thesis
        by (fastforce split: if_splits)
    next
      case True
      from "2.prems" True q obtain e rr where cs: "cs = e # rr"
        by (cases cs) auto
      show ?thesis
      proof (cases "e = CHR ''u''")
        case False
        from "2.prems" True q cs False obtain x where x: "escape e = Some x"
          by (cases "escape e") auto
        with "2.prems" True q cs False have "prepend [x] (string_body rr) = Some (v, r)"
          by simp
        then obtain t where "string_body rr = Some (t, r)" using prepend_Some by blast
        from "2.IH"(3) [OF q True cs False x this] cs show ?thesis by simp
      next
        case u: True
        from "2.prems" True q cs u obtain hi where hi: "hex4 (take 4 rr) = Some hi"
          by (cases "hex4 (take 4 rr)") auto
        show ?thesis
        proof (cases "if 0xD800 \<le> hi \<and> hi \<le> 0xDBFF then low_surrogate (drop 4 rr) else None")
          case None
          with "2.prems" True q cs u hi
          have "prepend (utf8 hi) (string_body (drop 4 rr)) = Some (v, r)"
            by simp
          then obtain t where "string_body (drop 4 rr) = Some (t, r)"
            using prepend_Some by blast
          from "2.IH"(1) [OF q True cs u hi None this] cs show ?thesis by simp
        next
          case (Some lo)
          with "2.prems" True q cs u hi
          have "prepend (utf8 (0x10000 + (hi - 0xD800) * 1024 + (lo - 0xDC00)))
                  (string_body (drop 10 rr)) = Some (v, r)"
            by simp
          then obtain t where "string_body (drop 10 rr) = Some (t, r)"
            using prepend_Some by blast
          from "2.IH"(2) [OF q True cs u hi Some this] cs show ?thesis by simp
        qed
      qed
    qed
  qed
qed

lemma lex_number_shorter: "lex_number s = Some (l, r) \<Longrightarrow> length r < length s"
proof -
  assume a: "lex_number s = Some (l, r)"
  have ne: "s \<noteq> []"
    using a by (auto simp: lex_number_def digits_def Let_def)
  from a obtain k where k: "r = drop k s" "0 < k"
    by (auto simp: lex_number_def Let_def split: if_splits option.splits)
  with ne show ?thesis by (cases s) auto
qed

lemma parse_shorter:
  "(parse_value n s = Some (v, r) \<longrightarrow> length r < length s)
   \<and> (parse_elements n s = Some (vs, r) \<longrightarrow> length r < length s)
   \<and> (parse_members n s = Some (kvs, r) \<longrightarrow> length r < length s)"
proof (induction n arbitrary: s v r vs kvs)
  case 0
  then show ?case by simp
next
  case (Suc n)
  have v: "length r < length s" if a: "parse_value (Suc n) s = Some (v, r)" for s v r
  proof -
    from a obtain c cs where sk: "skip_ws s = c # cs"
      by (cases "skip_ws s") auto
    have l: "length cs < length s" using skip_ws_Cons [OF sk] .
    have l2: "length (skip_ws cs) \<le> length cs" by (rule skip_ws_le)
    from a sk l l2 Suc.IH [of cs] string_body_shorter [of cs] lex_number_shorter [of "c # cs"]
      skip_ws_le [of s]
    show ?thesis
      by (fastforce split: if_splits simp: apfst_def map_prod_def)
  qed
  have e: "length r < length s" if a: "parse_elements (Suc n) s = Some (vs, r)" for s vs r
  proof -
    from a obtain x r1 where p: "parse_value n s = Some (x, r1)"
      by (cases "parse_value n s") auto
    then have l1: "length r1 < length s" using Suc.IH [of s x r1] by simp
    from a p obtain d t where sk: "skip_ws r1 = d # t"
      by (cases "skip_ws r1") auto
    have l2: "length t < length r1" using skip_ws_Cons [OF sk] .
    from a p sk l1 l2 Suc.IH [of t] show ?thesis
      by (fastforce split: if_splits simp: apfst_def map_prod_def)
  qed
  have m: "length r < length s" if a: "parse_members (Suc n) s = Some (kvs, r)" for s kvs r
  proof -
    from a obtain q t where sk: "skip_ws s = q # t"
      by (cases "skip_ws s") auto
    from a sk have q: "q = CHR 0x22" by (auto split: if_splits)
    from a sk q obtain k r1 where sb: "string_body t = Some (k, r1)"
      by (cases "string_body t") auto
    from a sk q sb obtain colon r2 where sk2: "skip_ws r1 = colon # r2"
      by (cases "skip_ws r1") auto
    from a sk q sb sk2 have c: "colon = CHR '':''" by (auto split: if_splits)
    from a sk q sb sk2 c obtain x r3 where p: "parse_value n r2 = Some (x, r3)"
      by (cases "parse_value n r2") auto
    from a sk q sb sk2 c p obtain d t2 where sk3: "skip_ws r3 = d # t2"
      by (cases "skip_ws r3") auto
    have "length t < length s" using skip_ws_Cons [OF sk] .
    moreover have "length r1 < length t" using string_body_shorter [OF sb] .
    moreover have "length r2 < length r1" using skip_ws_Cons [OF sk2] .
    moreover have "length r3 < length r2" using Suc.IH [of r2 x r3] p by simp
    moreover have "length t2 < length r3" using skip_ws_Cons [OF sk3] .
    ultimately have l: "length t2 < length s" by simp
    from a sk q sb sk2 c p sk3 l Suc.IH [of t2] show ?thesis
      by (fastforce split: if_splits simp: apfst_def map_prod_def)
  qed
  from v e m show ?case by blast
qed

lemma parse_value_shorter: "parse_value n s = Some (v, r) \<Longrightarrow> length r < length s"
  using parse_shorter [of n s v r "[]" "[]"] by simp

lemma parse_fuel:
  "(2 * length s + 1 \<le> n \<longrightarrow> 2 * length s + 1 \<le> m \<longrightarrow> parse_value n s = parse_value m s)
   \<and> (2 * length s + 2 \<le> n \<longrightarrow> 2 * length s + 2 \<le> m \<longrightarrow>
        parse_elements n s = parse_elements m s \<and> parse_members n s = parse_members m s)"
proof (induction "length s" arbitrary: s n m rule: less_induct)
  case less
  have ih_e: "parse_elements a t = parse_elements b t"
    and ih_m: "parse_members a t = parse_members b t"
    if "length t < length s" "2 * length s \<le> a" "2 * length s \<le> b" for t a b
    using less [of t a b] that by auto
  have ih_v: "parse_value a t = parse_value b t"
    if "length t < length s" "2 * length s \<le> a" "2 * length s \<le> b" for t a b
    using less [of t a b] that by auto
  have v: "parse_value a s = parse_value b s"
    if ab: "2 * length s + 1 \<le> a" "2 * length s + 1 \<le> b" for a b
  proof -
    from ab obtain a' b' where s: "a = Suc a'" "b = Suc b'"
      and ab': "2 * length s \<le> a'" "2 * length s \<le> b'"
      by (cases a; cases b) auto
    show ?thesis
    proof (cases "skip_ws s")
      case Nil
      then show ?thesis by (simp add: s)
    next
      case (Cons c cs)
      have l: "length cs < length s" using skip_ws_Cons [OF Cons] .
      show ?thesis
        by (simp add: s Cons ih_e [OF l ab'] ih_m [OF l ab'])
    qed
  qed
  have e: "parse_elements a s = parse_elements b s"
    if ab: "2 * length s + 2 \<le> a" "2 * length s + 2 \<le> b" for a b
  proof -
    from ab obtain a' b' where s: "a = Suc a'" "b = Suc b'"
      and ab': "2 * length s + 1 \<le> a'" "2 * length s + 1 \<le> b'"
      by (cases a; cases b) auto
    have pv: "parse_value a' s = parse_value b' s" using v [OF ab'] .
    show ?thesis
    proof (cases "parse_value b' s")
      case None
      then show ?thesis by (simp add: s pv)
    next
      case (Some p)
      obtain x r1 where p: "p = (x, r1)" by (cases p)
      have l1: "length r1 < length s"
        using parse_value_shorter [of b' s x r1] Some p by simp
      show ?thesis
      proof (cases "skip_ws r1")
        case Nil
        then show ?thesis by (simp add: s pv Some p)
      next
        case (Cons d t)
        have "length t < length s" using skip_ws_Cons [OF Cons] l1 by simp
        from ih_e [OF this, of a' b'] ab' show ?thesis
          by (simp add: s pv Some p Cons)
      qed
    qed
  qed
  have m: "parse_members a s = parse_members b s"
    if ab: "2 * length s + 2 \<le> a" "2 * length s + 2 \<le> b" for a b
  proof -
    from ab obtain a' b' where s: "a = Suc a'" "b = Suc b'"
      and ab': "2 * length s + 1 \<le> a'" "2 * length s + 1 \<le> b'"
      by (cases a; cases b) auto
    show ?thesis
    proof (cases "skip_ws s")
      case Nil
      then show ?thesis by (simp add: s)
    next
      case (Cons q t)
      have lt: "length t < length s" using skip_ws_Cons [OF Cons] .
      show ?thesis
      proof (cases "string_body t")
        case None
        then show ?thesis by (simp add: s Cons)
      next
        case (Some kr)
        obtain k r1 where kr: "kr = (k, r1)" by (cases kr)
        have l1: "length r1 < length s"
          using string_body_shorter [of t k r1] Some kr lt by simp
        show ?thesis
        proof (cases "skip_ws r1")
          case Nil
          then show ?thesis by (simp add: s Cons Some kr)
        next
          case c2: (Cons colon r2)
          have l2: "length r2 < length s" using skip_ws_Cons [OF c2] l1 by simp
          have pv: "parse_value a' r2 = parse_value b' r2"
            using ih_v [OF l2, of a' b'] ab' by simp
          show ?thesis
          proof (cases "parse_value b' r2")
            case None
            then show ?thesis by (simp add: s Cons Some kr c2 pv)
          next
            case p: (Some xr)
            obtain x r3 where xr: "xr = (x, r3)" by (cases xr)
            have l3: "length r3 < length s"
              using parse_value_shorter [of b' r2 x r3] p xr l2 by simp
            show ?thesis
            proof (cases "skip_ws r3")
              case Nil
              then show ?thesis by (simp add: s Cons Some kr c2 pv p xr)
            next
              case c3: (Cons d t2)
              have "length t2 < length s" using skip_ws_Cons [OF c3] l3 by simp
              from ih_m [OF this, of a' b'] ab' show ?thesis
                by (simp add: s Cons Some kr c2 pv p xr c3)
            qed
          qed
        qed
      qed
    qed
  qed
  from v e m show ?case by blast
qed

lemma JSON_parse_fuel:
  "2 * length s + 1 \<le> n \<Longrightarrow> parse_value n s = parse_value (2 * length s + 1) s"
  using parse_fuel [of s n "2 * length s + 1"] by simp

text \<open>
  Numbers: \<^verbatim>\<open>1.50\<close> is printed as \<^verbatim>\<open>1.5\<close>, and \<^verbatim>\<open>1e-400\<close> is read as zero.
\<close>

lemma to_text_number: "to_text (JNum ''1.50'') = ''1.5''"
  by code_simp

lemma truthy_number: "\<not> truthy (Some (JNum ''1e-400''))"
  by code_simp

section \<open>Properties of the segmenter and the annotator\<close>

lemma is_code_simps: "is_code (Code c l)" "\<not> is_code (Text t)"
  by (simp_all add: is_code_def)

lemma filter_code_add_text: "filter is_code (add_text parts s) = filter is_code parts"
  by (simp add: add_text_def Let_def is_code_simps)

lemma filter_code_match_parts:
  "filter is_code (fst (match_parts text ms li parts)) =
     filter is_code parts @ map code_part (filter has_code ms)"
proof (induction ms arbitrary: li parts)
  case Nil
  then show ?case by simp
next
  case (Cons m ms)
  obtain l c where lc: "code_of (m_array m) = (l, c)" by (cases "code_of (m_array m)")
  show ?case
    by (simp add: Cons.IH lc Let_def filter_code_add_text has_code_def code_part_def is_code_simps)
qed

lemma filter_code_use_matches:
  "filter is_code (use_matches text ms) = map code_part (filter has_code ms)"
proof -
  obtain ps li where r: "match_parts text ms 0 [] = (ps, li)"
    by (cases "match_parts text ms 0 []")
  have "filter is_code ps = map code_part (filter has_code ms)"
    using filter_code_match_parts [of "text" ms 0 "[]"] by (simp add: r)
  then show ?thesis
    by (simp add: use_matches_def r filter_code_add_text)
qed

lemma try_patterns_selected:
  "try_patterns ps text =
     (if selected ps text = [] then None else Some (use_matches text (selected ps text)))"
  by (induction ps) (simp_all add: Let_def)

text \<open>
  C7. Segmenting the input of three backticks, \<^verbatim>\<open>print(1)\<close>, three backticks gives exactly
  one part, a code part with language \<^verbatim>\<open>plaintext\<close> and content \<^verbatim>\<open>print(1)\<close>. The first
  two expressions have no match on it, and the third has the one match that is used.
\<close>

theorem parseContent_fallback_pattern:
  \<open>parseContent ''```print(1)```'' = [Code ''print(1)'' ''plaintext'']
   \<and> matchAll pattern_lang ''```print(1)```'' = []
   \<and> matchAll pattern_newline ''```print(1)```'' = []
   \<and> map m_array (matchAll pattern_plain ''```print(1)```'')
       = [[''```print(1)```'', ''print(1)'']]\<close>
  by code_simp

text \<open>
  C8, as amended. The code parts of the output are, in order, the matches of the selected
  expression whose captured body is not empty, each with the captured language or
  \<^verbatim>\<open>plaintext\<close>; a match with an empty body gives no part (the source's
  \<^verbatim>\<open>if (codeContent)\<close>).
\<close>

theorem parseContent_code_parts:
  "filter is_code (parseContent text) =
     map code_part (filter has_code (selected patterns text))"
  by (simp add: parseContent_def try_patterns_selected filter_code_use_matches is_code_simps)

theorem parseContent_code_parts_witness:
  \<open>filter is_code (parseContent ''a ```js\<newline>x``` b ```py\<newline>``` c'') = [Code ''x'' ''js'']
   \<and> map code_part (filter has_code (selected patterns ''a ```js\<newline>x``` b ```py\<newline>``` c''))
       = [Code ''x'' ''js'']
   \<and> length (selected patterns ''a ```js\<newline>x``` b ```py\<newline>``` c'') = 2\<close>
proof -
  have \<open>map code_part (filter has_code (selected patterns ''a ```js\<newline>x``` b ```py\<newline>``` c''))
       = [Code ''x'' ''js'']\<close>
    by code_simp
  moreover have \<open>length (selected patterns ''a ```js\<newline>x``` b ```py\<newline>``` c'') = 2\<close>
    by code_simp
  ultimately show ?thesis
    using parseContent_code_parts [of \<open>''a ```js\<newline>x``` b ```py\<newline>``` c''\<close>] by simp
qed

text \<open>
  C8 as stated fails: on six backticks the third expression is selected and has one
  match, whose body is empty, and the output has no part at all.
\<close>

theorem parseContent_empty_body_dropped:
  \<open>map m_array (selected patterns ''``````'') = [[''``````'', '''']]
   \<and> parseContent ''``````'' = []\<close>
  by code_simp

lemma scan_no_match: "\<forall>n. m (drop n s) = None \<Longrightarrow> scan m i k s = []"
proof (induction s arbitrary: i k)
  case Nil
  then show ?case by simp
next
  case (Cons c cs)
  have tl: "\<forall>n. m (drop n cs) = None"
  proof
    fix n show "m (drop n cs) = None" using Cons.prems [rule_format, of "Suc n"] by simp
  qed
  have hd: "m (c # cs) = None" using Cons.prems [rule_format, of 0] by simp
  show ?case by (simp add: hd Cons.IH [OF tl])
qed

lemma inlineCodeRegex_span:
  assumes "inlineCodeRegex s = Some arr"
  shows "\<exists>b c. s = [backtick] @ b @ [backtick] @ c \<and> b \<noteq> [] \<and> backtick \<notin> set b"
proof (cases s)
  case Nil
  with assms show ?thesis by (simp add: inlineCodeRegex_def)
next
  case (Cons x xs)
  define b where "b = takeWhile (\<lambda>x. x \<noteq> backtick) xs"
  from assms Cons have x: "x = backtick" and b: "b \<noteq> []"
    and t: "take 1 (drop (length b) xs) = [backtick]"
    by (auto simp: inlineCodeRegex_def Let_def b_def split: if_splits)
  have xs: "xs = b @ drop (length b) xs"
    unfolding b_def by (metis append_take_drop_id takeWhile_eq_take)
  from t obtain r where r: "drop (length b) xs = backtick # r"
    by (cases "drop (length b) xs") (auto split: if_splits)
  have nb: "backtick \<notin> set b" unfolding b_def by (auto dest: set_takeWhileD)
  have "s = [backtick] @ b @ [backtick] @ r" using Cons x xs r by simp
  with b nb show ?thesis by blast
qed

lemma no_span_no_match:
  assumes "no_span text"
  shows "matchAll inlineCodeRegex text = []"
proof -
  have "\<forall>n. inlineCodeRegex (drop n text) = None"
  proof
    fix n
    show "inlineCodeRegex (drop n text) = None"
    proof (cases "inlineCodeRegex (drop n text)")
      case None
      then show ?thesis .
    next
      case (Some arr)
      then obtain b c where d: "drop n text = [backtick] @ b @ [backtick] @ c"
        and "b \<noteq> []" "backtick \<notin> set b"
        using inlineCodeRegex_span by blast
      have "text = take n text @ [backtick] @ b @ [backtick] @ c"
        using d by (metis append_take_drop_id)
      with \<open>b \<noteq> []\<close> \<open>backtick \<notin> set b\<close> assms show ?thesis
        unfolding no_span_def by blast
    qed
  qed
  then show ?thesis by (simp add: matchAll_def scan_no_match)
qed

text \<open>
  C10, as amended. A text with no inline-code span gives exactly one plain part holding
  the whole text, whether the text is empty or not.
\<close>

theorem processInlineCode_no_span:
  "no_span text \<Longrightarrow> processInlineCode text = [PlainText text]"
  by (cases "text") (simp_all add: processInlineCode_def no_span_no_match)

theorem processInlineCode_no_span_witness:
  \<open>no_span ''a`b'' \<and> processInlineCode ''a`b'' = [PlainText ''a`b'']\<close>
proof -
  have h: \<open>no_span ''a`b''\<close>
    unfolding no_span_def
    by (auto simp: append_eq_Cons_conv Cons_eq_append_conv backtick_def)
  show ?thesis using h processInlineCode_no_span [OF h] by simp
qed

text \<open>
  C10 as stated fails on the empty text: it has no span, and the output is one plain part
  with empty content, not the empty list (the source's \<^verbatim>\<open>if (parts.length === 0)\<close>).
\<close>

theorem processInlineCode_empty_text:
  \<open>no_span '''' \<and> processInlineCode '''' = [PlainText ''''] \<and> processInlineCode '''' \<noteq> []\<close>
  by (simp add: no_span_def processInlineCode_def matchAll_def)

section \<open>Properties of the read loop\<close>

lemma split_nonempty: "split sep s \<noteq> []"
  by (induction s) (auto split: list.splits)

lemma split_append: "split sep (a @ sep # b) = split sep a @ split sep b"
proof (induction a)
  case Nil
  then show ?case by simp
next
  case (Cons c cs)
  obtain l ls where s: "split sep cs = l # ls"
    using split_nonempty [of sep cs] by (cases "split sep cs") auto
  show ?case by (simp add: Cons.IH s)
qed

lemma split_no_sep: "sep \<notin> set s \<Longrightarrow> split sep s = [s]"
  by (induction s) auto

lemma starts_with_data: "starts_with (''data: '' @ d) ''data: ''"
  by (simp add: starts_with_def)

lemma done_lineI:
  assumes "starts_with line ''data: ''" "drop 6 line = ''[DONE]''"
  shows "line = done_line"
proof -
  have "take 6 line @ drop 6 line = line" by (rule append_take_drop_id)
  moreover have "length ''data: '' = 6" by simp
  then have "take 6 line = ''data: ''" using assms(1) unfolding starts_with_def by metis
  ultimately show ?thesis using assms(2) by (simp add: done_line_def)
qed

lemma process_lines_append:
  "done_line \<notin> set l1 \<Longrightarrow> process_lines (l1 @ l2) st = process_lines l2 (process_lines l1 st)"
proof (induction l1 arbitrary: st)
  case Nil
  then show ?case by simp
next
  case (Cons line l1)
  have nd: "\<not> (starts_with line ''data: '' \<and> drop 6 line = ''[DONE]'')"
    using Cons.prems done_lineI by auto
  have ih: "\<And>st. process_lines (l1 @ l2) st = process_lines l2 (process_lines l1 st)"
    using Cons.IH Cons.prems by simp
  show ?case using nd by (simp add: ih)
qed

lemma process_blank: "process_lines [[]] st = st"
  by (simp add: starts_with_def)

lemma call_update_last: "call (update_last f st) = call st"
  by (simp add: update_last_def)

lemma call_on_data: "call (on_data d st) = call st"
  by (simp add: on_data_def try_data_def call_update_last split: option.splits)

lemma call_process_lines: "call (process_lines ls st) = call st"
  by (induction ls arbitrary: st) (simp_all add: call_update_last call_on_data)

lemma call_read_text: "call (read_text c st) = call st"
  by (simp add: read_text_def call_process_lines)

lemma read_text_at_line_end:
  assumes "done_line \<notin> set (split (CHR 0x0A) c1)"
  shows "read_text (c1 @ [CHR 0x0A] @ c2) st = read_text c2 (read_text (c1 @ [CHR 0x0A]) st)"
proof -
  have a: "split (CHR 0x0A) (c1 @ [CHR 0x0A] @ c2) = split (CHR 0x0A) c1 @ split (CHR 0x0A) c2"
    using split_append [of "CHR 0x0A" c1 c2] by simp
  have b: "split (CHR 0x0A) (c1 @ [CHR 0x0A]) = split (CHR 0x0A) c1 @ [[]]"
    using split_append [of "CHR 0x0A" c1 "[]"] by simp
  show ?thesis
    by (simp only: read_text_def a b process_lines_append [OF assms] process_blank)
qed

lemma run_append: "run st (evs1 @ evs2) = run (run st evs1) evs2"
  by (induction evs1 arbitrary: st) simp_all

lemma read_text_boundary:
  assumes "done_line \<notin> set (split (CHR 0x0A) c1)"
  shows "read_text (c1 @ [CHR 0x0A] @ c2) st = read_text c2 (read_text c1 st)"
proof -
  have a: "split (CHR 0x0A) (c1 @ [CHR 0x0A] @ c2) = split (CHR 0x0A) c1 @ split (CHR 0x0A) c2"
    using split_append [of "CHR 0x0A" c1 c2] by simp
  show ?thesis
    by (simp only: read_text_def a process_lines_append [OF assms])
qed

subsection \<open>The decoder and the state\<close>

lemma decode_append:
  "decode d (x @ y) =
     (case decode d x of (t1, d1) \<Rightarrow> (case decode d1 y of (t2, d2) \<Rightarrow> (t1 @ t2, d2)))"
proof (induction x arbitrary: d)
  case Nil
  then show ?case by (simp split: prod.splits)
next
  case (Cons b x)
  then show ?case by (simp add: Let_def split: prod.splits)
qed

lemma continues_line_feed: "\<not> continues h (CHR 0x0A)"
proof (cases h)
  case Nil
  then show ?thesis by simp
next
  case (Cons l r)
  then show ?thesis by (cases r) simp_all
qed

lemma decode_line_feed: "\<exists>t. decode d [CHR 0x0A] = (t @ [CHR 0x0A], at_rest)"
proof (cases "held d = []")
  case True
  then have "decode d [CHR 0x0A] = ([] @ [CHR 0x0A], at_rest)"
    by (simp add: decode_byte_def start_def lead_length_def emit_def byte_order_mark_def
        at_rest_def)
  then show ?thesis by blast
next
  case False
  then have "decode d [CHR 0x0A] = (replacement @ [CHR 0x0A], at_rest)"
    by (simp add: decode_byte_def continues_line_feed start_def lead_length_def emit_def
        byte_order_mark_def replacement_def at_rest_def)
  then show ?thesis by blast
qed

lemma decode_line_feed_at_rest: "decode at_rest [CHR 0x0A] = ([CHR 0x0A], at_rest)"
  by (simp add: decode_byte_def start_def lead_length_def emit_def byte_order_mark_def
      at_rest_def)

lemma decode_ends_line:
  "\<exists>t. decode d (a @ [CHR 0x0A]) = (t @ [CHR 0x0A], at_rest)"
proof -
  obtain t1 d1 where a: "decode d a = (t1, d1)" by (cases "decode d a")
  obtain t where l: "decode d1 [CHR 0x0A] = (t @ [CHR 0x0A], at_rest)"
    using decode_line_feed by blast
  have "decode d (a @ [CHR 0x0A]) = ((t1 @ t) @ [CHR 0x0A], at_rest)"
    using l by (simp add: decode_append a)
  then show ?thesis by blast
qed

lemma update_last_decoder:
  "update_last f (st\<lparr>decoder := d\<rparr>) = (update_last f st)\<lparr>decoder := d\<rparr>"
  by (simp add: update_last_def)

lemma on_data_decoder: "on_data x (st\<lparr>decoder := d\<rparr>) = (on_data x st)\<lparr>decoder := d\<rparr>"
  by (simp add: on_data_def try_data_def update_last_def split: option.splits)

lemma process_lines_decoder:
  "process_lines ls (st\<lparr>decoder := d\<rparr>) = (process_lines ls st)\<lparr>decoder := d\<rparr>"
  by (induction ls arbitrary: st) (simp_all add: update_last_decoder on_data_decoder)

lemma read_text_decoder: "read_text t (st\<lparr>decoder := d\<rparr>) = (read_text t st)\<lparr>decoder := d\<rparr>"
  by (simp add: read_text_def process_lines_decoder)

lemma read_chunk_eq:
  "read_chunk value st = (read_text (chunk_text st value) st)\<lparr>decoder := decoder_after st value\<rparr>"
  by (simp add: read_chunk_def chunk_text_def decoder_after_def read_text_decoder
      split: prod.splits)

lemma call_read_chunk: "call (read_chunk value st) = call st"
  by (simp add: read_chunk_eq call_read_text)

lemma two_chunks:
  "run st [Chunk a, Chunk b] =
     (if call st = Some Reading then read_chunk b (read_chunk a st) else st)"
  by (simp add: step_def call_read_chunk)

lemma one_chunk:
  "run st [Chunk a] = (if call st = Some Reading then read_chunk a st else st)"
  by (simp add: step_def)

lemma read_two_chunks:
  assumes "decode (decoder st) a = (t1, d1)" "decode d1 b = (t2, d2)"
  shows "read_chunk b (read_chunk a st) = (read_text t2 (read_text t1 st))\<lparr>decoder := d2\<rparr>"
    and "read_chunk (a @ b) st = (read_text (t1 @ t2) st)\<lparr>decoder := d2\<rparr>"
  using assms
  by (simp_all add: read_chunk_def read_text_decoder decode_append)

lemma chunks_at_line_end:
  assumes "done_line \<notin> set (split (CHR 0x0A) (chunk_text st (a @ [CHR 0x0A])))"
  shows "read_chunk b (read_chunk (a @ [CHR 0x0A]) st) = read_chunk (a @ [CHR 0x0A] @ b) st"
proof -
  obtain t where t: "decode (decoder st) (a @ [CHR 0x0A]) = (t @ [CHR 0x0A], at_rest)"
    using decode_ends_line by blast
  obtain t2 d2 where b: "decode at_rest b = (t2, d2)" by (cases "decode at_rest b")
  have "split (CHR 0x0A) (t @ [CHR 0x0A]) = split (CHR 0x0A) t @ [[]]"
    using split_append [of "CHR 0x0A" t "[]"] by simp
  with assms t have nd: "done_line \<notin> set (split (CHR 0x0A) t)"
    by (simp add: chunk_text_def)
  have "read_text ((t @ [CHR 0x0A]) @ t2) st = read_text t2 (read_text (t @ [CHR 0x0A]) st)"
    using read_text_at_line_end [OF nd, of t2 st] by simp
  then show ?thesis
    using read_two_chunks [OF t b] by simp
qed

lemma chunks_at_character_end:
  assumes "done_line \<notin> set (split (CHR 0x0A) (chunk_text st (a @ [CHR 0x0A])))"
    and "decoder_after st a = at_rest"
  shows "read_chunk b (read_chunk a st) = read_chunk (a @ [CHR 0x0A] @ b) st"
proof -
  obtain t where a: "decode (decoder st) a = (t, at_rest)"
    using assms(2) by (cases "decode (decoder st) a") (simp add: decoder_after_def)
  obtain t2 d2 where b: "decode at_rest b = (t2, d2)" by (cases "decode at_rest b")
  have al: "decode (decoder st) (a @ [CHR 0x0A]) = (t @ [CHR 0x0A], at_rest)"
    using decode_line_feed_at_rest by (simp add: decode_append a)
  have "split (CHR 0x0A) (t @ [CHR 0x0A]) = split (CHR 0x0A) t @ [[]]"
    using split_append [of "CHR 0x0A" t "[]"] by simp
  with assms(1) al have nd: "done_line \<notin> set (split (CHR 0x0A) t)"
    by (simp add: chunk_text_def)
  have j: "read_text ((t @ [CHR 0x0A]) @ t2) st = read_text t2 (read_text t st)"
    using read_text_boundary [OF nd, of t2 st] by simp
  have "read_chunk ((a @ [CHR 0x0A]) @ b) st = (read_text ((t @ [CHR 0x0A]) @ t2) st)\<lparr>decoder := d2\<rparr>"
    using read_two_chunks(2) [OF al b] .
  then show ?thesis
    using read_two_chunks(1) [OF a b] j by simp
qed

text \<open>
  C2, as amended. No part of a line is kept from one read to the next: the text of each
  read is split into lines on its own, and the decoder carries over nothing but the bytes
  of a character that is not complete. A read that ends with a line feed and the read
  after it are read as if both had come in one chunk, when no \<^verbatim>\<open>[DONE]\<close> line stands in the
  first (after \<^verbatim>\<open>[DONE]\<close> the rest of the same chunk is left unread, the next chunk is not).
  And the end of a read ends a line, when the decoder then holds no byte of a character
  and is past the first character of the body: the read and the read after it are read as
  one chunk that has a line feed between them, so that the two pieces of a line cut there
  are two lines.
\<close>

theorem chunk_boundary_is_line_boundary:
  assumes "done_line \<notin> set (split (CHR 0x0A) (chunk_text (run st before) (a @ [CHR 0x0A])))"
  shows "run st (before @ [Chunk (a @ [CHR 0x0A]), Chunk b] @ after)
           = run st (before @ [Chunk (a @ [CHR 0x0A] @ b)] @ after)
       \<and> (decoder_after (run st before) a = at_rest \<longrightarrow>
            run st (before @ [Chunk a, Chunk b] @ after)
              = run st (before @ [Chunk (a @ [CHR 0x0A] @ b)] @ after))"
proof -
  have "run (run st before) [Chunk (a @ [CHR 0x0A]), Chunk b]
          = run (run st before) [Chunk (a @ [CHR 0x0A] @ b)]"
    unfolding two_chunks one_chunk using chunks_at_line_end [OF assms, of b] by simp
  moreover have "run (run st before) [Chunk a, Chunk b]
          = run (run st before) [Chunk (a @ [CHR 0x0A] @ b)]"
    if "decoder_after (run st before) a = at_rest"
    unfolding two_chunks one_chunk using chunks_at_character_end [OF assms that, of b] by simp
  ultimately show ?thesis
    unfolding run_append by simp
qed

theorem chunk_boundary_is_line_boundary_witness:
  \<open>done_line \<notin> set (split (CHR 0x0A) (chunk_text (run init first_turn) (''data: {"content":"Hello"}'' @ [CHR 0x0A])))
   \<and> decoder_after (run init first_turn) ''data: {"content":"Hello"}'' = at_rest
   \<and> run init (first_turn @ [Chunk (''data: {"content":"Hello"}'' @ [CHR 0x0A]), Chunk ''data: {"content":" world"}\<newline>''] @ [StreamEnd])
       = run init (first_turn @ [Chunk (''data: {"content":"Hello"}'' @ [CHR 0x0A] @ ''data: {"content":" world"}\<newline>'')] @ [StreamEnd])
   \<and> run init (first_turn @ [Chunk ''data: {"content":"Hello"}'', Chunk ''data: {"content":" world"}\<newline>''] @ [StreamEnd])
       = run init (first_turn @ [Chunk (''data: {"content":"Hello"}'' @ [CHR 0x0A] @ ''data: {"content":" world"}\<newline>'')] @ [StreamEnd])
   \<and> content (last (messages (run init (first_turn @ [Chunk (''data: {"content":"Hello"}'' @ [CHR 0x0A]), Chunk ''data: {"content":" world"}\<newline>''] @ [StreamEnd]))))
       = ''Hello world''\<close>
proof -
  have h: \<open>done_line \<notin> set (split (CHR 0x0A) (chunk_text (run init first_turn) (''data: {"content":"Hello"}'' @ [CHR 0x0A])))\<close>
    by code_simp
  have r: \<open>decoder_after (run init first_turn) ''data: {"content":"Hello"}'' = at_rest\<close>
    by code_simp
  have c: \<open>content (last (messages (run init (first_turn @ [Chunk (''data: {"content":"Hello"}'' @ [CHR 0x0A]), Chunk ''data: {"content":" world"}\<newline>''] @ [StreamEnd]))))
       = ''Hello world''\<close>
    by code_simp
  show ?thesis
    using h r c chunk_boundary_is_line_boundary
      [OF h, where after = "[StreamEnd]" and b = \<open>''data: {"content":" world"}\<newline>''\<close>]
    by blast
qed

text \<open>
  C2 as stated fails: the frame \<^verbatim>\<open>data: {"content":"x"}\<close> cut in two after \<^verbatim>\<open>{"cont\<close> leaves
  the assistant message empty, while the same frame in one chunk gives the delta \<^verbatim>\<open>x\<close>. The
  first piece does not parse and is dropped; the second does not start with \<^verbatim>\<open>data: \<close>.
\<close>

theorem split_frame_is_lost:
  \<open>content (last (messages (run init
       (first_turn @ [Chunk ''data: {"cont'', Chunk ''ent":"x"}\<newline>'', StreamEnd])))) = []
   \<and> content (last (messages (run init
       (first_turn @ [Chunk ''data: {"content":"x"}\<newline>'', StreamEnd])))) = ''x''\<close>
  by code_simp

lemma on_data_malformed: "JSON_parse d = None \<Longrightarrow> on_data d st = st"
  by (simp add: on_data_def try_data_def)

lemma process_lines_malformed:
  assumes "JSON_parse d = None" "d \<noteq> ''[DONE]''"
  shows "process_lines (l1 @ [''data: '' @ d] @ l2) st = process_lines (l1 @ l2) st"
proof (induction l1 arbitrary: st)
  case Nil
  show ?case using assms by (simp add: starts_with_data on_data_malformed)
next
  case (Cons line l1)
  then show ?case by simp
qed

lemma read_text_malformed:
  assumes "JSON_parse d = None" "d \<noteq> ''[DONE]''" "CHR 0x0A \<notin> set d"
    and "pre = [] \<or> last pre = CHR 0x0A"
  shows "read_text (pre @ ''data: '' @ d @ [CHR 0x0A] @ post) st = read_text (pre @ post) st"
proof -
  have line: "split (CHR 0x0A) ((''data: '' @ d) @ CHR 0x0A # post)
                = [''data: '' @ d] @ split (CHR 0x0A) post"
    using assms(3) by (subst split_append) (simp add: split_no_sep)
  show ?thesis
  proof (cases "pre = []")
    case True
    show ?thesis
      using line process_lines_malformed [OF assms(1,2), of "[]"]
      by (simp add: True read_text_def)
  next
    case False
    with assms(4) obtain p where p: "pre = p @ [CHR 0x0A]"
      by (metis append_butlast_last_id)
    have a: "split (CHR 0x0A) (pre @ ''data: '' @ d @ [CHR 0x0A] @ post)
               = split (CHR 0x0A) p @ [''data: '' @ d] @ split (CHR 0x0A) post"
      using split_append [of "CHR 0x0A" p "(''data: '' @ d) @ CHR 0x0A # post"] line
      by (simp add: p)
    have b: "split (CHR 0x0A) (pre @ post) = split (CHR 0x0A) p @ split (CHR 0x0A) post"
      using split_append [of "CHR 0x0A" p post] by (simp add: p)
    show ?thesis
      unfolding read_text_def a b by (rule process_lines_malformed [OF assms(1,2)])
  qed
qed

text \<open>
  C6, as amended. A frame whose payload does not parse (and is not the sentinel) and that
  stands whole in the text of one read, from the start of its line to its line feed,
  changes nothing: the run goes on exactly as with a read that gives the same text
  without the frame, so no error is shown, reading is not ended, and the deltas before and
  after it are appended as if the frame were absent.
\<close>

theorem malformed_frame_skipped:
  assumes "JSON_parse d = None" "d \<noteq> ''[DONE]''" "CHR 0x0A \<notin> set d"
    and "pre = [] \<or> last pre = CHR 0x0A"
    and "decode (decoder (run st before)) v = (pre @ ''data: '' @ d @ [CHR 0x0A] @ post, dec)"
    and "decode (decoder (run st before)) w = (pre @ post, dec)"
  shows "run st (before @ [Chunk v] @ after) = run st (before @ [Chunk w] @ after)"
proof -
  have "read_chunk v (run st before) = read_chunk w (run st before)"
    using read_text_malformed [OF assms(1-4), of post]
    by (simp add: read_chunk_def assms(5,6))
  then have "run (run st before) [Chunk v] = run (run st before) [Chunk w]"
    unfolding one_chunk by simp
  then show ?thesis
    by (simp only: run_append)
qed

theorem malformed_frame_skipped_witness:
  \<open>JSON_parse ''{"content":'' = None
   \<and> decode (decoder (run init first_turn)) (''data: {"content":"a"}\<newline>'' @ ''data: '' @ ''{"content":'' @ [CHR 0x0A] @ ''data: {"content":"b"}\<newline>'')
       = (''data: {"content":"a"}\<newline>'' @ ''data: '' @ ''{"content":'' @ [CHR 0x0A] @ ''data: {"content":"b"}\<newline>'', at_rest)
   \<and> run init (first_turn @ [Chunk (''data: {"content":"a"}\<newline>'' @ ''data: '' @ ''{"content":'' @ [CHR 0x0A] @ ''data: {"content":"b"}\<newline>'')] @ [StreamEnd])
       = run init (first_turn @ [Chunk (''data: {"content":"a"}\<newline>'' @ ''data: {"content":"b"}\<newline>'')] @ [StreamEnd])
   \<and> content (last (messages (run init (first_turn @ [Chunk (''data: {"content":"a"}\<newline>'' @ ''data: '' @ ''{"content":'' @ [CHR 0x0A] @ ''data: {"content":"b"}\<newline>'')] @ [StreamEnd]))))
       = ''ab''\<close>
proof -
  have p: \<open>JSON_parse ''{"content":'' = None\<close>
    by code_simp
  have d: \<open>''{"content":'' \<noteq> ''[DONE]''\<close>
    by simp
  have n: \<open>CHR 0x0A \<notin> set ''{"content":''\<close>
    by simp
  have l: \<open>''data: {"content":"a"}\<newline>'' = [] \<or> last ''data: {"content":"a"}\<newline>'' = CHR 0x0A\<close>
    by simp
  have v: \<open>decode (decoder (run init first_turn)) (''data: {"content":"a"}\<newline>'' @ ''data: '' @ ''{"content":'' @ [CHR 0x0A] @ ''data: {"content":"b"}\<newline>'')
       = (''data: {"content":"a"}\<newline>'' @ ''data: '' @ ''{"content":'' @ [CHR 0x0A] @ ''data: {"content":"b"}\<newline>'', at_rest)\<close>
    by code_simp
  have w: \<open>decode (decoder (run init first_turn)) (''data: {"content":"a"}\<newline>'' @ ''data: {"content":"b"}\<newline>'')
       = (''data: {"content":"a"}\<newline>'' @ ''data: {"content":"b"}\<newline>'', at_rest)\<close>
    by code_simp
  have c: \<open>content (last (messages (run init (first_turn @ [Chunk (''data: {"content":"a"}\<newline>'' @ ''data: '' @ ''{"content":'' @ [CHR 0x0A] @ ''data: {"content":"b"}\<newline>'')] @ [StreamEnd]))))
       = ''ab''\<close>
    by code_simp
  show ?thesis
    using p v c malformed_frame_skipped [OF p d n l v w, where after = "[StreamEnd]"]
    by blast
qed

text \<open>
  C6 as stated fails: the frame \<^verbatim>\<open>data: {"content":"z"}garbage\<close>, whose payload does not
  parse, stands between the frames of \<^verbatim>\<open>a\<close> and \<^verbatim>\<open>b\<close>; when a read ends after its brace, the
  first piece is a frame that parses, and the content is \<^verbatim>\<open>azb\<close>, not \<^verbatim>\<open>ab\<close>.
\<close>

theorem malformed_frame_cut_in_two:
  \<open>JSON_parse ''{"content":"z"}garbage'' = None
   \<and> content (last (messages (run init (first_turn @
        [Chunk ''data: {"content":"a"}\<newline>data: {"content":"z"}'',
         Chunk ''garbage\<newline>data: {"content":"b"}\<newline>'', StreamEnd])))) = ''azb''
   \<and> content (last (messages (run init (first_turn @
        [Chunk ''data: {"content":"a"}\<newline>'',
         Chunk ''data: {"content":"b"}\<newline>'', StreamEnd])))) = ''ab''\<close>
  by code_simp

text \<open>
  C5. The frames \<^verbatim>\<open>{"content":"Hello"}\<close>, \<^verbatim>\<open>{"content":" world"}\<close>, \<^verbatim>\<open>[DONE]\<close>, each a whole
  \<^verbatim>\<open>data: \<close> line, leave the assistant message with content \<^verbatim>\<open>Hello world\<close> and
  \<^verbatim>\<open>isStreaming\<close> false, whether each line comes in a chunk of its own or all come in one.
\<close>

theorem hello_world_done:
  \<open>messages (run init (first_turn @
      [Chunk ''data: {"content":"Hello"}\<newline>'',
       Chunk ''data: {"content":" world"}\<newline>'',
       Chunk ''data: [DONE]\<newline>'',
       StreamEnd]))
    = [\<lparr>role = User, content = ''hi'', timestamp = 1, screenshot = None, isStreaming = None\<rparr>,
       \<lparr>role = Assistant, content = ''Hello world'', timestamp = 2, screenshot = None,
        isStreaming = Some False\<rparr>]
   \<and> messages (run init (first_turn @
      [Chunk ''data: {"content":"Hello"}\<newline>data: {"content":" world"}\<newline>data: [DONE]\<newline>'',
       StreamEnd]))
    = [\<lparr>role = User, content = ''hi'', timestamp = 1, screenshot = None, isStreaming = None\<rparr>,
       \<lparr>role = Assistant, content = ''Hello world'', timestamp = 2, screenshot = None,
        isStreaming = Some False\<rparr>]\<close>
  by code_simp

text \<open>
  C1, on the code. A frame with an error field is thrown inside the \<^verbatim>\<open>try\<close> block whose
  \<^verbatim>\<open>catch\<close> drops everything: after the frame \<^verbatim>\<open>{"error":"boom"}\<close> no error is shown, the call
  goes on reading, and the next frame's delta is appended.
\<close>

theorem error_frame_is_dropped:
  \<open>run init (first_turn @ [Chunk ''data: {"error":"boom"}\<newline>data: {"content":"x"}\<newline>''])
    = \<lparr>messages =
         [\<lparr>role = User, content = ''hi'', timestamp = 1, screenshot = None, isStreaming = None\<rparr>,
          \<lparr>role = Assistant, content = ''x'', timestamp = 2, screenshot = None,
           isStreaming = Some True\<rparr>],
       input = [], isLoading = True, isRecording = False, error = None,
       abortController = Some 0, call = Some Reading, signal = 0,
       updatedMessages =
         [\<lparr>role = User, content = ''hi'', timestamp = 1, screenshot = None, isStreaming = None\<rparr>],
       decoder = \<lparr>held = [], bomSeen = True\<rparr>,
       accumulatedContent = ''x'', controllers = 1,
       requests = [\<lparr>req_messages = [(User, ''hi'')], req_screenshot = None, req_signal = 0\<rparr>],
       crashed = False\<rparr>\<close>
  by code_simp

lemma error_frame_changes_nothing:
  assumes "JSON_parse d = Some parsed" "truthy (property parsed ''error'')"
  shows "on_data d st = st"
  using assms by (simp add: on_data_def try_data_def)

section \<open>Properties of the session\<close>

lemma status_ready: "status st = ''Ready'' \<longleftrightarrow> \<not> isLoading st \<and> \<not> isRecording st"
  by (simp add: status_def)

text \<open>
  C9. When the recording is stopped and the transcription is empty or white space only,
  the session is back at rest (the status line reads \<^verbatim>\<open>Ready\<close>), the notice
  \<^verbatim>\<open>No speech detected\<close> is shown, no message is added, no request goes to \<^verbatim>\<open>/send_message\<close>
  and no call is left waiting for one.
\<close>

theorem empty_transcription_returns_to_ready:
  assumes "isRecording st" "\<not> isLoading st"
    and "stop_recording c = None" "process_audio c = Replied True data"
    and "data_transcription data = Some t" "trim t = []"
  shows "status (step st (ToggleVoiceRecording c now)) = ''Ready''
       \<and> error (step st (ToggleVoiceRecording c now)) = Some ''No speech detected''
       \<and> messages (step st (ToggleVoiceRecording c now)) = messages st
       \<and> requests (step st (ToggleVoiceRecording c now)) = requests st
       \<and> call (step st (ToggleVoiceRecording c now)) = call st"
proof -
  have b: "blank (data_transcription data)"
    using assms(5,6) by (simp add: blank_def present_def or_else_def)
  have "step st (ToggleVoiceRecording c now)
          = finally_block (st\<lparr>isRecording := False, isLoading := True,
                              error := Some ''No speech detected'', isLoading := False\<rparr>)"
    using assms(1-4) b by (simp add: step_def toggleVoiceRecording_def)
  then show ?thesis
    by (simp add: finally_block_def status_def)
qed

theorem empty_transcription_returns_to_ready_witness:
  \<open>isRecording (step init (ToggleVoiceRecording silence 0))
   \<and> trim [CHR 0x20, CHR 0x0A] = []
   \<and> status (step (step init (ToggleVoiceRecording silence 0)) (ToggleVoiceRecording silence 1)) = ''Ready''
   \<and> error (step (step init (ToggleVoiceRecording silence 0)) (ToggleVoiceRecording silence 1)) = Some ''No speech detected''
   \<and> messages (step (step init (ToggleVoiceRecording silence 0)) (ToggleVoiceRecording silence 1)) = messages (step init (ToggleVoiceRecording silence 0))
   \<and> requests (step (step init (ToggleVoiceRecording silence 0)) (ToggleVoiceRecording silence 1)) = requests (step init (ToggleVoiceRecording silence 0))
   \<and> call (step (step init (ToggleVoiceRecording silence 0)) (ToggleVoiceRecording silence 1)) = call (step init (ToggleVoiceRecording silence 0))\<close>
proof -
  have h1: \<open>isRecording (step init (ToggleVoiceRecording silence 0))\<close>
    by code_simp
  have h2: \<open>\<not> isLoading (step init (ToggleVoiceRecording silence 0))\<close>
    by code_simp
  have h3: \<open>stop_recording silence = None\<close>
    by code_simp
  have h4: \<open>process_audio silence = Replied True \<lparr>data_status = None, data_message = None, data_error = None, data_transcription = Some [CHR 0x20, CHR 0x0A], data_screenshot = None\<rparr>\<close>
    by code_simp
  have h5: \<open>data_transcription \<lparr>data_status = None, data_message = None, data_error = None, data_transcription = Some [CHR 0x20, CHR 0x0A], data_screenshot = None\<rparr> = Some [CHR 0x20, CHR 0x0A]\<close>
    by code_simp
  have h6: \<open>trim [CHR 0x20, CHR 0x0A] = []\<close>
    by code_simp
  show ?thesis
    using h1 h6 empty_transcription_returns_to_ready [OF h1 h2 h3 h4 h5 h6, of 1]
    by blast
qed

lemma transcript_invariant_iff:
  "transcript_invariant ms \<longleftrightarrow> filter streaming (butlast ms) = []"
proof (cases "ms = []")
  case True
  then show ?thesis by (simp add: transcript_invariant_def)
next
  case False
  then have "ms = butlast ms @ [last ms]" by simp
  then have "filter streaming ms = filter streaming (butlast ms) @ filter streaming [last ms]"
    by (metis filter_append)
  then show ?thesis by (auto simp: transcript_invariant_def)
qed

lemma butlast_update_last: "butlast (messages (update_last f st)) = butlast (messages st)"
  by (simp add: update_last_def)

lemma updated_update_last: "updatedMessages (update_last f st) = updatedMessages st"
  by (simp add: update_last_def)

lemma butlast_on_data: "butlast (messages (on_data d st)) = butlast (messages st)"
  by (simp add: on_data_def try_data_def butlast_update_last split: option.splits)

lemma butlast_process_lines: "butlast (messages (process_lines ls st)) = butlast (messages st)"
  by (induction ls arbitrary: st) (simp_all add: butlast_update_last butlast_on_data)

lemma butlast_read_chunk: "butlast (messages (read_chunk c st)) = butlast (messages st)"
  by (simp add: read_chunk_eq read_text_def butlast_process_lines)

lemma updated_on_data: "updatedMessages (on_data d st) = updatedMessages st"
  by (simp add: on_data_def try_data_def updated_update_last split: option.splits)

lemma updated_process_lines: "updatedMessages (process_lines ls st) = updatedMessages st"
  by (induction ls arbitrary: st) (simp_all add: updated_update_last updated_on_data)

lemma updated_read_chunk: "updatedMessages (read_chunk c st) = updatedMessages st"
  by (simp add: read_chunk_eq read_text_def updated_process_lines)

lemma consistent_send_request:
  assumes "filter streaming (messages st) = []" "\<not> streaming m"
  shows "consistent (send_request m shot st)"
  using assms by (simp add: consistent_def send_request_def transcript_invariant_iff)

lemma consistent_same:
  assumes "consistent st" "messages st' = messages st" "updatedMessages st' = updatedMessages st"
    and "call st' = call st \<or> call st' = None"
  shows "consistent st'"
  using assms by (auto simp: consistent_def split: if_splits)

lemma requests_send_request: "requests (send_request m x st) \<noteq> requests st"
  by (simp add: send_request_def)

lemma consistent_submit:
  assumes "consistent st"
    and "(messages R = messages st \<and> updatedMessages R = updatedMessages st
            \<and> (call R = call st \<or> call R = None))
         \<or> (\<exists>m x st'. R = send_request m x st' \<and> messages st' = messages st
                \<and> requests st' = requests st \<and> \<not> streaming m)"
    and "requests R \<noteq> requests st \<longrightarrow> filter streaming (messages st) = []"
  shows "consistent R"
  using assms(2)
proof
  assume "messages R = messages st \<and> updatedMessages R = updatedMessages st
            \<and> (call R = call st \<or> call R = None)"
  then show ?thesis using consistent_same [OF assms(1), of R] by blast
next
  assume "\<exists>m x st'. R = send_request m x st' \<and> messages st' = messages st
                \<and> requests st' = requests st \<and> \<not> streaming m"
  then obtain m x st' where R: "R = send_request m x st'" and m: "messages st' = messages st"
    and r: "requests st' = requests st" and n: "\<not> streaming m"
    by blast
  have "requests R \<noteq> requests st"
    using requests_send_request [of m x st'] by (simp add: R r)
  with assms(3) have "filter streaming (messages st') = []" by (simp add: m)
  then show ?thesis unfolding R using n by (rule consistent_send_request)
qed

lemma sendMessage_submits:
  "(messages (sendMessage w shot now st) = messages st
      \<and> updatedMessages (sendMessage w shot now st) = updatedMessages st
      \<and> (call (sendMessage w shot now st) = call st \<or> call (sendMessage w shot now st) = None))
   \<or> (\<exists>m x st'. sendMessage w shot now st = send_request m x st' \<and> messages st' = messages st
          \<and> requests st' = requests st \<and> \<not> streaming m)"
proof -
  define P where "P R \<longleftrightarrow>
    (messages R = messages st \<and> updatedMessages R = updatedMessages st
       \<and> (call R = call st \<or> call R = None))
    \<or> (\<exists>m x st'. R = send_request m x st' \<and> messages st' = messages st
           \<and> requests st' = requests st \<and> \<not> streaming m)" for R
  let ?st0 = "st\<lparr>isLoading := True, error := None\<rparr>"
  obtain st1 s where c: "(if w then captureScreenshot shot ?st0 else (?st0, None)) = (st1, s)"
    by (cases "if w then captureScreenshot shot ?st0 else (?st0, None)")
  have m1: "messages st1 = messages st" "updatedMessages st1 = updatedMessages st"
    "call st1 = call st" "requests st1 = requests st"
    using c by (auto simp: captureScreenshot_def split: if_splits reply.splits)
  have same: "P st" "P (finally_block (st1\<lparr>isLoading := False\<rparr>))"
    by (simp_all add: P_def finally_block_def m1)
  have send: "P (send_request m x (st1\<lparr>input := []\<rparr>))" if "\<not> streaming m" for m x
  proof -
    have "messages (st1\<lparr>input := []\<rparr>) = messages st"
      "requests (st1\<lparr>input := []\<rparr>) = requests st"
      by (simp_all add: m1)
    with that show ?thesis unfolding P_def by blast
  qed
  have "P (sendMessage w shot now st)"
    using same send by (simp add: sendMessage_def c Let_def streaming_def)
  then show ?thesis by (simp add: P_def)
qed

lemma toggleVoiceRecording_submits:
  "(messages (toggleVoiceRecording c now st) = messages st
      \<and> updatedMessages (toggleVoiceRecording c now st) = updatedMessages st
      \<and> (call (toggleVoiceRecording c now st) = call st
           \<or> call (toggleVoiceRecording c now st) = None))
   \<or> (\<exists>m x st'. toggleVoiceRecording c now st = send_request m x st'
          \<and> messages st' = messages st \<and> requests st' = requests st \<and> \<not> streaming m)"
proof -
  define P where "P R \<longleftrightarrow>
    (messages R = messages st \<and> updatedMessages R = updatedMessages st
       \<and> (call R = call st \<or> call R = None))
    \<or> (\<exists>m x st'. R = send_request m x st' \<and> messages st' = messages st
           \<and> requests st' = requests st \<and> \<not> streaming m)" for R
  have same: "\<And>R. messages R = messages st \<Longrightarrow> updatedMessages R = updatedMessages st
      \<Longrightarrow> call R = call st \<Longrightarrow> P R"
    by (simp add: P_def)
  have send: "\<And>m x st'. \<not> streaming m \<Longrightarrow> messages st' = messages st
      \<Longrightarrow> requests st' = requests st \<Longrightarrow> P (send_request m x st')"
    unfolding P_def by blast
  have "P (toggleVoiceRecording c now st)"
    by (auto simp: toggleVoiceRecording_def Let_def streaming_def finally_block_def
        catch_block_def intro!: same send split: reply.splits option.splits exn.splits)
  then show ?thesis by (simp add: P_def)
qed

lemma consistent_stopGeneration: "consistent st \<Longrightarrow> consistent (stopGeneration st)"
  by (auto simp: stopGeneration_def ended_def finally_block_def catch_block_def
      intro: consistent_same split: option.splits)

lemma consistent_on_response:
  assumes "consistent st" "call st = Some AwaitingResponse"
  shows "consistent (on_response r now st)"
proof -
  have u: "updatedMessages st = messages st" "filter streaming (messages st) = []"
    using assms by (simp_all add: consistent_def)
  show ?thesis
    using assms(1) u
    by (auto simp: on_response_def ended_def finally_block_def catch_block_def Let_def
        consistent_def transcript_invariant_iff split: reply.splits)
qed

lemma consistent_read_chunk:
  assumes "consistent st" "call st = Some Reading"
  shows "consistent (read_chunk c st)"
  using assms butlast_read_chunk [of c st] call_read_chunk [of c st]
  by (simp add: consistent_def transcript_invariant_iff)

lemma consistent_step:
  assumes "consistent st"
    and "requests (step st ev) \<noteq> requests st \<longrightarrow> filter streaming (messages st) = []"
  shows "consistent (step st ev)"
proof (cases ev)
  case (SetInput s)
  then show ?thesis using assms(1) by (auto simp: step_def intro: consistent_same)
next
  case (SendMessage w shot now)
  then have e: "step st ev = sendMessage w shot now st" by (simp add: step_def)
  show ?thesis
    using consistent_submit [OF assms(1) sendMessage_submits [of w shot now st]] assms(2)
    unfolding e by blast
next
  case (ToggleVoiceRecording c now)
  then have e: "step st ev = toggleVoiceRecording c now st" by (simp add: step_def)
  show ?thesis
    using consistent_submit [OF assms(1) toggleVoiceRecording_submits [of c now st]] assms(2)
    unfolding e by blast
next
  case StopGeneration
  then show ?thesis using assms(1) by (simp add: step_def consistent_stopGeneration)
next
  case (Response r now)
  then show ?thesis using assms(1) by (simp add: step_def consistent_on_response)
next
  case (Chunk c)
  then show ?thesis using assms(1) by (simp add: step_def consistent_read_chunk)
next
  case StreamEnd
  then show ?thesis
    using assms(1) by (auto simp: step_def ended_def finally_block_def intro: consistent_same)
next
  case (ReadError msg)
  then show ?thesis
    using assms(1)
    by (auto simp: step_def ended_def finally_block_def catch_block_def intro: consistent_same)
qed

lemma consistent_run: "consistent st \<Longrightarrow> settled st evs \<Longrightarrow> consistent (run st evs)"
proof (induction evs arbitrary: st)
  case Nil
  then show ?case by simp
next
  case (Cons ev evs)
  from Cons.prems have "consistent (step st ev)"
    by (intro consistent_step) (auto split: if_splits)
  with Cons show ?case by simp
qed

text \<open>
  C4, as amended. In every state reached from the start by events among which a message
  is submitted (a user message is appended and a request goes to \<^verbatim>\<open>/send_message\<close>) only
  when no message is streaming, at most one message is streaming and no message but the
  last is. A press of a send button or of the voice button that submits nothing (refused
  for \<^verbatim>\<open>isLoading\<close>, blank input, failed screenshot, start of a recording, failed or blank
  transcription) is under no condition. (Only \<^verbatim>\<open>[DONE]\<close> clears the flag; a turn that ends
  by the stop button, by an error or by the end of the body leaves its message streaming.)
\<close>

theorem settled_runs_keep_invariant:
  "settled init evs \<Longrightarrow> transcript_invariant (messages (run init evs))"
proof -
  assume s: "settled init evs"
  have "consistent init" by (simp add: consistent_def init_def transcript_invariant_def)
  from consistent_run [OF this s] show ?thesis by (simp add: consistent_def)
qed

theorem settled_runs_keep_invariant_witness:
  \<open>settled init (first_turn @ [Chunk ''data: {"content":"Hello"}\<newline>'', Chunk ''data: [DONE]\<newline>'', StreamEnd, SetInput ''more'', SendMessage False (Rejected []) 3, Response (Replied True True) 4, StreamEnd, ToggleVoiceRecording silence 5, ToggleVoiceRecording silence 6, SendMessage False (Rejected []) 7, SendMessage True (Rejected ''denied'') 8])
   \<and> map isStreaming (messages (run init (first_turn @ [Chunk ''data: {"content":"Hello"}\<newline>'', Chunk ''data: [DONE]\<newline>'', StreamEnd, SetInput ''more'', SendMessage False (Rejected []) 3, Response (Replied True True) 4, StreamEnd, ToggleVoiceRecording silence 5, ToggleVoiceRecording silence 6, SendMessage False (Rejected []) 7, SendMessage True (Rejected ''denied'') 8]))) = [None, Some False, None, Some True]
   \<and> transcript_invariant (messages (run init (first_turn @ [Chunk ''data: {"content":"Hello"}\<newline>'', Chunk ''data: [DONE]\<newline>'', StreamEnd, SetInput ''more'', SendMessage False (Rejected []) 3, Response (Replied True True) 4, StreamEnd, ToggleVoiceRecording silence 5, ToggleVoiceRecording silence 6, SendMessage False (Rejected []) 7, SendMessage True (Rejected ''denied'') 8])))\<close>
proof -
  have h: \<open>settled init (first_turn @ [Chunk ''data: {"content":"Hello"}\<newline>'', Chunk ''data: [DONE]\<newline>'', StreamEnd, SetInput ''more'', SendMessage False (Rejected []) 3, Response (Replied True True) 4, StreamEnd, ToggleVoiceRecording silence 5, ToggleVoiceRecording silence 6, SendMessage False (Rejected []) 7, SendMessage True (Rejected ''denied'') 8])\<close>
    by code_simp
  have m: \<open>map isStreaming (messages (run init (first_turn @ [Chunk ''data: {"content":"Hello"}\<newline>'', Chunk ''data: [DONE]\<newline>'', StreamEnd, SetInput ''more'', SendMessage False (Rejected []) 3, Response (Replied True True) 4, StreamEnd, ToggleVoiceRecording silence 5, ToggleVoiceRecording silence 6, SendMessage False (Rejected []) 7, SendMessage True (Rejected ''denied'') 8]))) = [None, Some False, None, Some True]\<close>
    by code_simp
  show ?thesis
    using h m settled_runs_keep_invariant [OF h] by blast
qed

text \<open>
  C4 as stated fails: the body of the first turn ends with no \<^verbatim>\<open>[DONE]\<close>, its message stays
  streaming, and the user message of the next submit comes after it.
\<close>

theorem submit_after_open_stream:
  \<open>transcript_invariant (messages (run init (first_turn @ [StreamEnd])))
   \<and> map isStreaming (messages (run init (first_turn @ [StreamEnd, SetInput ''more'', SendMessage False (Rejected []) 3]))) = [None, Some True, None]
   \<and> \<not> transcript_invariant (messages (run init (first_turn @ [StreamEnd, SetInput ''more'', SendMessage False (Rejected []) 3])))\<close>
  by code_simp









section \<open>The model's own devices\<close>

text \<open>
  In every state that a run reaches from the start, no updater of the transcript has
  thrown, a suspended call goes with \<open>isLoading\<close> and with its own controller in the
  reference (so that no second call starts beside it and the stop button reaches it), and
  a call that is reading has a transcript that is not empty.
\<close>

lemma update_last_keeps:
  "isLoading (update_last f st) = isLoading st"
  "abortController (update_last f st) = abortController st"
  "signal (update_last f st) = signal st"
  "messages st \<noteq> [] \<Longrightarrow> messages (update_last f st) \<noteq> []"
  "messages st \<noteq> [] \<Longrightarrow> crashed (update_last f st) = crashed st"
  by (simp_all add: update_last_def)

lemma on_data_keeps:
  "isLoading (on_data d st) = isLoading st"
  "abortController (on_data d st) = abortController st"
  "signal (on_data d st) = signal st"
  "messages st \<noteq> [] \<Longrightarrow> messages (on_data d st) \<noteq> []"
  "messages st \<noteq> [] \<Longrightarrow> crashed (on_data d st) = crashed st"
  by (simp_all add: on_data_def try_data_def update_last_keeps split: option.splits)

lemma process_lines_keeps:
  "isLoading (process_lines ls st) = isLoading st
   \<and> abortController (process_lines ls st) = abortController st
   \<and> signal (process_lines ls st) = signal st
   \<and> (messages st \<noteq> [] \<longrightarrow> messages (process_lines ls st) \<noteq> []
        \<and> crashed (process_lines ls st) = crashed st)"
  by (induction ls arbitrary: st) (simp_all add: update_last_keeps on_data_keeps)

lemma sound_read_chunk:
  "sound st \<Longrightarrow> call st = Some Reading \<Longrightarrow> sound (read_chunk c st)"
  using process_lines_keeps [of "split (CHR 0x0A) (chunk_text st c)" st]
  by (simp add: sound_def read_chunk_eq read_text_def call_process_lines)

lemma sound_step: "sound st \<Longrightarrow> sound (step st ev)"
proof (cases ev)
  case (SendMessage w shot now)
  assume "sound st"
  then show ?thesis
    unfolding SendMessage
    by (auto simp: step_def sendMessage_def sound_def send_request_def finally_block_def
        captureScreenshot_def Let_def split: if_splits reply.splits prod.splits)
next
  case (ToggleVoiceRecording c now)
  assume "sound st"
  then show ?thesis
    unfolding ToggleVoiceRecording
    by (auto simp: step_def toggleVoiceRecording_def sound_def send_request_def
        finally_block_def catch_block_def Let_def
        split: if_splits reply.splits option.splits exn.splits)
next
  case (Chunk c)
  assume "sound st"
  then show ?thesis
    unfolding Chunk by (simp add: step_def sound_read_chunk)
qed (auto simp: step_def sound_def stopGeneration_def on_response_def ended_def
      finally_block_def catch_block_def Let_def
      split: if_splits reply.splits option.splits exn.splits)

lemma sound_run: "sound (run init evs)"
proof -
  have "sound st \<Longrightarrow> sound (run st evs)" for st
    by (induction evs arbitrary: st) (simp_all add: sound_step)
  moreover have "sound init" by (simp add: sound_def init_def)
  ultimately show ?thesis by blast
qed

end
